theory Spec2Isabelle
  imports Complex_Main
begin

section \<open>Arrays, errors and the Chebyshev object\<close>

text \<open>
  The development follows \<^verbatim>\<open>pygsp/filters/approximations.py\<close> (class
  \<^verbatim>\<open>Chebyshev\<close>) and \<^verbatim>\<open>compute_cheby_coeff\<close> of
  \<^verbatim>\<open>pygsp/operators.py\<close>. Floating-point numbers are modelled by the reals.

  A numpy array is its shape and its entries in row-major (C) order.
  Assigning to \<^verbatim>\<open>x.shape\<close> changes the first field only.
\<close>

datatype error =
    ValueError string
  | AttributeError string
  | IndexError

record ndarray =
  shape :: "nat list"
  entries :: "real list"

definition ndim :: "ndarray \<Rightarrow> nat" where
  "ndim a = length (shape a)"

text \<open>\<^verbatim>\<open>np.expand_dims(a, -1)\<close>: a new last axis of length one.\<close>

definition expand_dims_last :: "ndarray \<Rightarrow> ndarray" where
  "expand_dims_last a = a\<lparr>shape := shape a @ [1]\<rparr>"

text \<open>
  The loop \<^verbatim>\<open>while self._coefficients.ndim < 3: ... expand_dims(..., -1)\<close>
  of \<^verbatim>\<open>Chebyshev.__init__\<close>.
\<close>

function expand_to_3 :: "ndarray \<Rightarrow> ndarray" where
  "expand_to_3 a = (if ndim a < 3 then expand_to_3 (expand_dims_last a) else a)"
  by pat_completeness auto
termination
  by (relation "measure (\<lambda>a. 3 - ndim a)") (auto simp: ndim_def expand_dims_last_def)

declare expand_to_3.simps [simp del]

text \<open>
  A scipy sparse matrix, the type \<^verbatim>\<open>create_laplacian\<close> returns: its two
  dimensions and all its entries, row by row. Only its values matter here, not its
  storage format.
\<close>

record spmatrix =
  nrows :: nat
  ncols :: nat
  coeffs :: "real list"

text \<open>
  The graph as the filter reads it: \<^verbatim>\<open>G.N\<close>, \<^verbatim>\<open>G.L\<close> and
  \<^verbatim>\<open>G.lmax\<close>.
\<close>

record graph =
  gN :: nat
  gL :: spmatrix
  lmax :: real

text \<open>
  The argument \<^verbatim>\<open>filters\<close> of the constructor: a \<^verbatim>\<open>Filter\<close> object (it has
  the attribute \<^verbatim>\<open>Nf\<close> and the kernels \<^verbatim>\<open>g\<close>) or an array of coefficients.
\<close>

record filter_bank =
  bank_Nf :: nat
  bank_g :: "(real \<Rightarrow> real) list"

datatype filters = FilterObject filter_bank | ArrayLike ndarray

text \<open>
  The instance: an attribute that was never assigned is \<open>None\<close>, and reading it raises
  \<^verbatim>\<open>AttributeError\<close>.
\<close>

record chebyshev =
  G :: graph
  order :: int
  coefficients :: "ndarray option"
  Nf :: "nat option"

text \<open>\<^verbatim>\<open>Chebyshev._compute_coefficients\<close>: the body is \<^verbatim>\<open>pass\<close>.\<close>

definition compute_coefficients :: "chebyshev \<Rightarrow> filters \<Rightarrow> chebyshev" where
  "compute_coefficients self fs = self"

text \<open>
  \<^verbatim>\<open>Chebyshev.__init__\<close>. For a \<^verbatim>\<open>Filter\<close> object the \<^verbatim>\<open>try\<close> block
  succeeds; for an array \<^verbatim>\<open>filters.Nf\<close> raises and the \<^verbatim>\<open>except\<close> block
  stores the array. \<^verbatim>\<open>shape[1]\<close> exists there because the stored array has at
  least three axes.
\<close>

definition init :: "graph \<Rightarrow> filters \<Rightarrow> int \<Rightarrow> chebyshev" where
  "init g fs ord =
     (let self = \<lparr>G = g, order = ord, coefficients = None, Nf = None\<rparr>;
          self = compute_coefficients self fs
      in case fs of
           FilterObject fb \<Rightarrow> self\<lparr>Nf := Some (bank_Nf fb)\<rparr>
         | ArrayLike a \<Rightarrow>
             (let c = expand_to_3 a
              in self\<lparr>coefficients := Some c, Nf := Some (shape c ! 1)\<rparr>))"

section \<open>Chebyshev coefficients of a kernel\<close>

text \<open>
  \<^verbatim>\<open>compute_cheby_coeff(f, G, m, N)\<close> of \<^verbatim>\<open>operators.py\<close>, for the kernel
  \<^verbatim>\<open>f.g[i]\<close> that the decorator selects; \<^verbatim>\<open>G.lmax\<close> is present. Python's
  \<^verbatim>\<open>int()\<close> rounds towards zero, \<^verbatim>\<open>range(0, n)\<close> is empty for \<open>n \<le> 0\<close>,
  \<^verbatim>\<open>a_arange[2]\<close> raises \<^verbatim>\<open>IndexError\<close> on fewer than three elements,
  \<^verbatim>\<open>np.zeros(m+1)\<close> raises \<^verbatim>\<open>ValueError\<close> on a negative length, and
  \<^verbatim>\<open>/\<close> is true division. \<^verbatim>\<open>np.arange(1, N)\<close> is \<open>1, ..., N-1\<close>. The loop variable
  \<^verbatim>\<open>o\<close> is \<open>k\<close> here.
\<close>

definition py_int :: "real \<Rightarrow> int" where
  "py_int r = (if r \<ge> 0 then \<lfloor>r\<rfloor> else \<lceil>r\<rceil>)"

definition py_range :: "int \<Rightarrow> int \<Rightarrow> int list" where
  "py_range a b = [a..b - 1]"

definition compute_cheby_coeff :: "(real \<Rightarrow> real) \<Rightarrow> graph \<Rightarrow> int \<Rightarrow> int option \<Rightarrow> error + real list" where
  "compute_cheby_coeff f g m N0 =
     (let N = (case N0 of None \<Rightarrow> m + 1 | Some n \<Rightarrow> if n = 0 then m + 1 else n);
          a_arange = py_range 0 (py_int (lmax g))
      in if length a_arange < 3 then Inl IndexError
         else
           let a1 = (real_of_int (a_arange ! 2) - real_of_int (a_arange ! 1)) / 2;
               a2 = (real_of_int (a_arange ! 2) + real_of_int (a_arange ! 1)) / 2
           in if m + 1 < 0 then Inl (ValueError ''negative dimensions are not allowed'')
              else Inr (map (\<lambda>k.
                     sum_list (map (\<lambda>j. f (a1 * cos (pi * (real_of_int j - 0.5)) / real_of_int N)
                                          + a2 * cos (pi * (real_of_int k - 1) * (real_of_int j - 0.5) / real_of_int N))
                                (py_range 1 N)) * 2 / real_of_int N)
                   (py_range 0 (m + 1))))"

text \<open>
  The coefficients as the specification words them: \<open>N\<close> Chebyshev nodes
  \<open>cos(\<pi>(j - 1/2)/N)\<close>, \<open>j = 1, ..., N\<close>, mapped from \<open>[-1, 1]\<close> back to
  \<open>[0, lmax]\<close> by the inverse of \<open>x' = 2x/lmax - 1\<close>, and
  \<open>c[o] = (2/N) \<Sum>\<^sub>j f(node\<^sub>j) cos(o \<pi> (j - 1/2)/N)\<close> for \<open>o = 0, ..., K\<close>.
\<close>

definition cheby_node :: "real \<Rightarrow> nat \<Rightarrow> nat \<Rightarrow> real" where
  "cheby_node lm N j = (cos (pi * (real j - 0.5) / real N) + 1) * lm / 2"

definition cheby_coeff_spec :: "(real \<Rightarrow> real) \<Rightarrow> real \<Rightarrow> nat \<Rightarrow> nat \<Rightarrow> real list" where
  "cheby_coeff_spec f lm K N =
     map (\<lambda>k. (2 / real N) * (\<Sum>j = 1..N. f (cheby_node lm N j) * cos (real k * pi * (real j - 0.5) / real N)))
       [0..<K + 1]"

section \<open>Evaluation of the series at spectral points\<close>

text \<open>
  Inside \<^verbatim>\<open>_evaluate\<close> four kinds of values meet, and numpy broadcasts them against
  each other: Python scalars, a row \<^verbatim>\<open>c[k]\<close> of the reshaped coefficients (shape
  \<open>(F, 1, ..., 1)\<close>), arrays of the shape of \<^verbatim>\<open>x\<close> (their entries in row-major
  order) and arrays of shape \<open>(F,) + x.shape\<close> (one row of points per filter).
\<close>

datatype bval =
    Scalar real
  | Col "real list"
  | Pts "real list"
  | Full "real list list"

text \<open>An elementwise binary operation, with numpy's broadcasting between the four kinds.\<close>

fun bop :: "(real \<Rightarrow> real \<Rightarrow> real) \<Rightarrow> bval \<Rightarrow> bval \<Rightarrow> bval" where
  "bop g (Scalar a) (Scalar b) = Scalar (g a b)"
| "bop g (Scalar a) (Col d) = Col (map (g a) d)"
| "bop g (Scalar a) (Pts y) = Pts (map (g a) y)"
| "bop g (Scalar a) (Full m) = Full (map (map (g a)) m)"
| "bop g (Col c) (Scalar b) = Col (map (\<lambda>u. g u b) c)"
| "bop g (Col c) (Col d) = Col (map2 g c d)"
| "bop g (Col c) (Pts y) = Full (map (\<lambda>u. map (g u) y) c)"
| "bop g (Col c) (Full m) = Full (map2 (\<lambda>u r. map (g u) r) c m)"
| "bop g (Pts x) (Scalar b) = Pts (map (\<lambda>u. g u b) x)"
| "bop g (Pts x) (Col d) = Full (map (\<lambda>v. map (\<lambda>u. g u v) x) d)"
| "bop g (Pts x) (Pts y) = Pts (map2 g x y)"
| "bop g (Pts x) (Full m) = Full (map (\<lambda>r. map2 g x r) m)"
| "bop g (Full m) (Scalar b) = Full (map (map (\<lambda>u. g u b)) m)"
| "bop g (Full m) (Col d) = Full (map2 (\<lambda>r v. map (\<lambda>u. g u v) r) m d)"
| "bop g (Full m) (Pts y) = Full (map (\<lambda>r. map2 g r y) m)"
| "bop g (Full m) (Full m') = Full (map2 (map2 g) m m')"

definition badd :: "bval \<Rightarrow> bval \<Rightarrow> bval" where
  "badd = bop (+)"

definition bsub :: "bval \<Rightarrow> bval \<Rightarrow> bval" where
  "bsub = bop (-)"

definition bmul :: "bval \<Rightarrow> bval \<Rightarrow> bval" where
  "bmul = bop (*)"

text \<open>An elementwise function such as \<^verbatim>\<open>np.cos\<close> or \<^verbatim>\<open>np.arccos\<close>.\<close>

fun bmap :: "(real \<Rightarrow> real) \<Rightarrow> bval \<Rightarrow> bval" where
  "bmap g (Scalar a) = Scalar (g a)"
| "bmap g (Col c) = Col (map g c)"
| "bmap g (Pts x) = Pts (map g x)"
| "bmap g (Full m) = Full (map (map g) m)"

text \<open>The entries of a value in row-major order, as \<^verbatim>\<open>reshape\<close> reads them.\<close>

fun flat :: "bval \<Rightarrow> real list" where
  "flat (Scalar a) = [a]"
| "flat (Col c) = c"
| "flat (Pts x) = x"
| "flat (Full m) = concat m"

definition size_of :: "ndarray \<Rightarrow> nat" where
  "size_of a = prod_list (shape a)"

text \<open>
  \<^verbatim>\<open>c[k]\<close> for the coefficients reshaped to \<open>(K, F, 1, ..., 1)\<close>: the \<open>k\<close>-th
  block of \<open>F\<close> entries; an index beyond the first axis raises \<^verbatim>\<open>IndexError\<close>.
\<close>

definition getrow :: "ndarray \<Rightarrow> nat \<Rightarrow> error + bval" where
  "getrow c k =
     (let K = shape c ! 0; F = shape c ! 1
      in if k < K then Inr (Col (take F (drop (k * F) (entries c)))) else Inl IndexError)"

text \<open>The row of a loop index, which the loop bounds keep below \<open>K\<close>.\<close>

definition row :: "ndarray \<Rightarrow> nat \<Rightarrow> bval" where
  "row c k = Col (take (shape c ! 1) (drop (k * (shape c ! 1)) (entries c)))"

definition ones_like :: "ndarray \<Rightarrow> bval" where
  "ones_like x = Pts (replicate (length (entries x)) 1)"

definition zeros_full :: "nat \<Rightarrow> ndarray \<Rightarrow> bval" where
  "zeros_full F x = Full (replicate F (replicate (length (entries x)) 0))"

text \<open>
  \<^verbatim>\<open>_evaluate_direct\<close>: \<^verbatim>\<open>result += c[k] * np.cos(k * x)\<close> for
  \<^verbatim>\<open>k in range(K)\<close>, with \<^verbatim>\<open>x = np.arccos(x)\<close>.
\<close>

definition evaluate_direct :: "ndarray \<Rightarrow> ndarray \<Rightarrow> error + bval" where
  "evaluate_direct c x =
     (let K = shape c ! 0; F = shape c ! 1;
          result = zeros_full F x;
          x = bmap arccos (Pts (entries x))
      in Inr (fold (\<lambda>k result. badd result (bmul (row c k) (bmap cos (bmul (Scalar (real k)) x))))
                [0..<K] result))"

text \<open>
  \<^verbatim>\<open>_evaluate_recursive\<close>. The loop state is \<open>(x0, x1, result)\<close>; \<^verbatim>\<open>x1\<close> is
  unbound in the source while \<open>K \<le> 1\<close>, where the loop does not run.
\<close>

definition recursive_step :: "ndarray \<Rightarrow> bval \<Rightarrow> nat \<Rightarrow> bval \<times> bval \<times> bval \<Rightarrow> bval \<times> bval \<times> bval" where
  "recursive_step c x k st =
     (case st of (x0, x1, result) \<Rightarrow>
        (let x2 = bsub (bmul (bmul (Scalar 2) x) x1) x0;
             result = badd result (bmul (row c k) x2)
         in (x1, x2, result)))"

definition evaluate_recursive :: "ndarray \<Rightarrow> ndarray \<Rightarrow> error + bval" where
  "evaluate_recursive c x =
     (let K = shape c ! 0;
          x0 = ones_like x
      in case getrow c 0 of
           Inl e \<Rightarrow> Inl e
         | Inr c0 \<Rightarrow>
             (let result = bmul c0 x0;
                  x1 = Pts (entries x);
                  result = (if K > 1 then badd result (bmul (row c 1) x1) else result)
              in case fold (recursive_step c (Pts (entries x))) [2..<K] (x0, x1, result) of
                   (x0, x1, result) \<Rightarrow> Inr result))"

text \<open>
  \<^verbatim>\<open>_evaluate_clenshaw\<close>: \<^verbatim>\<open>range(K-2, 0, -1)\<close> runs through
  \<open>K-2, ..., 1\<close>; the loop state is \<open>(b2, b1)\<close>.
\<close>

definition clenshaw_step :: "ndarray \<Rightarrow> bval \<Rightarrow> nat \<Rightarrow> bval \<times> bval \<Rightarrow> bval \<times> bval" where
  "clenshaw_step c x k st =
     (case st of (b2, b1) \<Rightarrow>
        (let b = bsub (badd (row c k) (bmul (bmul (Scalar 2) x) b1)) b2
         in (b1, b)))"

definition evaluate_clenshaw :: "ndarray \<Rightarrow> ndarray \<Rightarrow> error + bval" where
  "evaluate_clenshaw c x =
     (let K = shape c ! 0;
          b2 = Scalar 0;
          b1 = (if K \<ge> 2 then bmul (row c (K - 1)) (ones_like x) else Scalar 0)
      in case fold (clenshaw_step c (Pts (entries x))) (rev [1..<K - 1]) (b2, b1) of
           (b2, b1) \<Rightarrow>
             (case getrow c 0 of
                Inl e \<Rightarrow> Inl e
              | Inr c0 \<Rightarrow> Inr (bsub (badd c0 (bmul (Pts (entries x)) b1)) b2)))"

text \<open>
  \<^verbatim>\<open>getattr(self, '_evaluate_' + method)\<close>: the attributes of the class whose name
  starts that way. \<open>None\<close> stands for the \<^verbatim>\<open>AttributeError\<close> of a missing name.
\<close>

definition getattr_evaluate :: "string \<Rightarrow> (ndarray \<Rightarrow> ndarray \<Rightarrow> error + bval) option" where
  "getattr_evaluate name =
     map_of [(''_evaluate_direct'', evaluate_direct),
             (''_evaluate_recursive'', evaluate_recursive),
             (''_evaluate_clenshaw'', evaluate_clenshaw)] name"

definition unknown_method :: "string \<Rightarrow> error" where
  "unknown_method m = ValueError (''Unknown method '' @ m @ ''.'')"

text \<open>
  \<^verbatim>\<open>except AttributeError: raise ValueError(...)\<close> around the lookup and the call:
  any \<^verbatim>\<open>AttributeError\<close> raised inside becomes the \<^verbatim>\<open>ValueError\<close>.
\<close>

definition except_attribute_error :: "string \<Rightarrow> error + 'a \<Rightarrow> error + 'a" where
  "except_attribute_error m r =
     (case r of Inl (AttributeError a) \<Rightarrow> Inl (unknown_method m) | _ \<Rightarrow> r)"

definition no_coefficients :: error where
  "no_coefficients = AttributeError ''_coefficients''"

text \<open>
  \<^verbatim>\<open>Chebyshev._evaluate\<close>. The result carries the array and whether the warning was
  logged. The order of the source is kept: \<^verbatim>\<open>x.min()\<close> raises on an empty array,
  then \<^verbatim>\<open>self._coefficients\<close> is read, its shape unpacked, and the method looked up.
  The division by \<^verbatim>\<open>G.lmax\<close> is the one of the reals; the graph has \<open>lmax > 0\<close>.
\<close>

definition evaluate :: "chebyshev \<Rightarrow> ndarray \<Rightarrow> string option \<Rightarrow> error + (ndarray \<times> bool)" where
  "evaluate self x method =
     (if entries x = [] then Inl (ValueError ''zero-size array to reduction operation'')
      else
        let warned = (Min (set (entries x)) < 0 \<or> Max (set (entries x)) > lmax (G self));
            x' = x\<lparr>entries := map (\<lambda>v. 2 * v / lmax (G self) - 1) (entries x)\<rparr>
        in case coefficients self of
             None \<Rightarrow> Inl no_coefficients
           | Some c \<Rightarrow>
               (case shape c of
                  [K, Fout, Fin] \<Rightarrow>
                    (let c = c\<lparr>shape := [K, Fout * Fin] @ replicate (ndim x') 1\<rparr>;
                         method = (case method of None \<Rightarrow> ''recursive'' | Some m \<Rightarrow> m)
                     in case except_attribute_error method
                               (case getattr_evaluate (''_evaluate_'' @ method) of
                                  None \<Rightarrow> Inl (AttributeError (''_evaluate_'' @ method))
                                | Some f \<Rightarrow> f c x') of
                          Inl e \<Rightarrow> Inl e
                        | Inr y \<Rightarrow>
                            (if length (flat y) = Fout * Fin * size_of x'
                             then Inr (\<lparr>shape = filter (\<lambda>d. d \<noteq> 1) ([Fout, Fin] @ shape x'),
                                        entries = flat y\<rparr>, warned)
                             else Inl (ValueError ''cannot reshape array'')))
                | _ \<Rightarrow> Inl (ValueError ''not enough or too many values to unpack'')))"

section \<open>Notions for the properties of the evaluation\<close>

text \<open>
  A value fits \<open>F\<close> filters and \<open>P\<close> points when its lengths are those numbers;
  \<open>entry v f p\<close> is the entry that broadcasting gives it for filter \<open>f\<close> and point
  \<open>p\<close>.
\<close>

fun fits :: "nat \<Rightarrow> nat \<Rightarrow> bval \<Rightarrow> bool" where
  "fits F P (Scalar a) = True"
| "fits F P (Col c) = (length c = F)"
| "fits F P (Pts x) = (length x = P)"
| "fits F P (Full m) = (length m = F \<and> (\<forall>r\<in>set m. length r = P))"

fun entry :: "bval \<Rightarrow> nat \<Rightarrow> nat \<Rightarrow> real" where
  "entry (Scalar a) f p = a"
| "entry (Col c) f p = c ! f"
| "entry (Pts x) f p = x ! p"
| "entry (Full m) f p = m ! f ! p"

text \<open>
  Values of shape \<open>(F,) + x.shape\<close>, and values whose shape includes that of \<open>x\<close>.
\<close>

fun is_full :: "bval \<Rightarrow> bool" where
  "is_full (Full m) = True"
| "is_full _ = False"

fun is_wide :: "bval \<Rightarrow> bool" where
  "is_wide (Full m) = True"
| "is_wide (Pts x) = True"
| "is_wide _ = False"

text \<open>
  The Chebyshev polynomials of the first kind by their recurrence, the entry \<open>(k, f)\<close>
  of coefficients stored in \<open>K\<close> rows of \<open>F\<close>, and the series
  \<open>\<Sum>\<^sub>k\<^sub><\<^sub>n c\<^sub>k\<^sub>,\<^sub>f T\<^sub>k(v)\<close>.
\<close>

fun Tcheb :: "nat \<Rightarrow> real \<Rightarrow> real" where
  "Tcheb 0 x = 1"
| "Tcheb (Suc 0) x = x"
| "Tcheb (Suc (Suc n)) x = 2 * x * Tcheb (Suc n) x - Tcheb n x"

definition coef :: "real list \<Rightarrow> nat \<Rightarrow> nat \<Rightarrow> nat \<Rightarrow> real" where
  "coef es F k f = es ! (k * F + f)"

text \<open>
  The reshaped coefficients have \<open>K\<close> rows of \<open>F\<close> entries.
\<close>

definition rows_ok :: "ndarray \<Rightarrow> nat \<Rightarrow> nat \<Rightarrow> bool" where
  "rows_ok c K F \<longleftrightarrow> shape c ! 0 = K \<and> shape c ! 1 = F \<and> length (entries c) = K * F"

text \<open>
  A value that fits and whose entries are given by \<open>g\<close>; a result that is a full
  array of the series at every point.
\<close>

definition repr :: "nat \<Rightarrow> nat \<Rightarrow> bval \<Rightarrow> (nat \<Rightarrow> nat \<Rightarrow> real) \<Rightarrow> bool" where
  "repr F P v g \<longleftrightarrow> fits F P v \<and> (\<forall>f<F. \<forall>p<P. entry v f p = g f p)"

definition series :: "real list \<Rightarrow> nat \<Rightarrow> nat \<Rightarrow> nat \<Rightarrow> real \<Rightarrow> real" where
  "series es F n f v = (\<Sum>k<n. coef es F k f * Tcheb k v)"

definition good :: "ndarray \<Rightarrow> nat \<Rightarrow> nat \<Rightarrow> nat \<Rightarrow> ndarray \<Rightarrow> error + bval \<Rightarrow> bool" where
  "good c K F P x res \<longleftrightarrow>
     (\<exists>r. res = Inr r \<and> is_full r \<and> repr F P r (\<lambda>f p. series (entries c) F K f (entries x ! p)))"

text \<open>
  The result of \<^verbatim>\<open>_evaluate\<close>: the series of every filter at every rescaled point, row
  by row, in the shape \<open>(Fout, Fin) + x.shape\<close> without its axes of length one, and the
  warning flag.
\<close>

definition series_table :: "real list \<Rightarrow> nat \<Rightarrow> nat \<Rightarrow> real list \<Rightarrow> real list" where
  "series_table es F K xs = concat (map (\<lambda>f. map (series es F K f) xs) [0..<F])"

definition rescaled :: "graph \<Rightarrow> ndarray \<Rightarrow> ndarray" where
  "rescaled g x = x\<lparr>entries := map (\<lambda>v. 2 * v / lmax g - 1) (entries x)\<rparr>"

definition evaluate_result :: "chebyshev \<Rightarrow> ndarray \<Rightarrow> ndarray \<Rightarrow> error + (ndarray \<times> bool)" where
  "evaluate_result self c x =
     Inr (\<lparr>shape = filter (\<lambda>d. d \<noteq> 1) ([shape c ! 1, shape c ! 2] @ shape x),
           entries = series_table (entries c) (shape c ! 1 * shape c ! 2) (shape c ! 0)
                       (map (\<lambda>v. 2 * v / lmax (G self) - 1) (entries x))\<rparr>,
          Min (set (entries x)) < 0 \<or> Max (set (entries x)) > lmax (G self))"

section \<open>The filter operator\<close>

subsection \<open>Array objects and the store\<close>

text \<open>
  \<^verbatim>\<open>_filter_recursive\<close> and \<^verbatim>\<open>_filter_clenshaw\<close> take views and assign to
  \<^verbatim>\<open>x.shape\<close>, so the arrays live in a store. An array object has its own shape
  and refers to a buffer of entries; a view is a new object on the same buffer. Python
  variables hold addresses of objects. The store also counts the calls of
  \<^verbatim>\<open>L.__rmul__\<close>, to tell which multiplications by the Laplacian were carried out.
\<close>

record pyarray =
  ashape :: "nat list"
  abuf :: nat

record heap =
  objs :: "pyarray list"
  bufs :: "real list list"
  dots :: nat

type_synonym 'a prog = "heap \<Rightarrow> (error + 'a) \<times> heap"

definition return :: "'a \<Rightarrow> 'a prog" where
  "return x = (\<lambda>h. (Inr x, h))"

definition throw :: "error \<Rightarrow> 'a prog" where
  "throw e = (\<lambda>h. (Inl e, h))"

definition andthen :: "'a prog \<Rightarrow> ('a \<Rightarrow> 'b prog) \<Rightarrow> 'b prog" where
  "andthen p f = (\<lambda>h. case p h of (Inl e, h') \<Rightarrow> (Inl e, h') | (Inr x, h') \<Rightarrow> f x h')"

text \<open>The array that the object at an address denotes.\<close>

definition arr :: "heap \<Rightarrow> nat \<Rightarrow> ndarray" where
  "arr h a = \<lparr>shape = ashape (objs h ! a), entries = bufs h ! abuf (objs h ! a)\<rparr>"

text \<open>A freshly computed array: a new buffer and a new object.\<close>

definition new_array :: "ndarray \<Rightarrow> nat prog" where
  "new_array v = (\<lambda>h. (Inr (length (objs h)),
      h\<lparr>objs := objs h @ [\<lparr>ashape = shape v, abuf = length (bufs h)\<rparr>],
        bufs := bufs h @ [entries v]\<rparr>))"

definition compute :: "error + ndarray \<Rightarrow> nat prog" where
  "compute r = (case r of Inl e \<Rightarrow> throw e | Inr v \<Rightarrow> new_array v)"

text \<open>\<^verbatim>\<open>s.view()\<close>: a new object with the same shape on the same buffer.\<close>

definition view :: "nat \<Rightarrow> nat prog" where
  "view a = (\<lambda>h. (Inr (length (objs h)), h\<lparr>objs := objs h @ [objs h ! a]\<rparr>))"

text \<open>
  \<^verbatim>\<open>x.shape = sh\<close>: numpy accepts a shape of the same total size and changes the
  object in place; another size raises \<^verbatim>\<open>ValueError\<close>.
\<close>

definition set_shape :: "nat \<Rightarrow> nat list \<Rightarrow> unit prog" where
  "set_shape a sh = (\<lambda>h.
     if prod_list sh = length (entries (arr h a))
     then (Inr (), h\<lparr>objs := (objs h)[a := (objs h ! a)\<lparr>ashape := sh\<rparr>]\<rparr>)
     else (Inl (ValueError ''cannot reshape array''), h))"

subsection \<open>The numerical kernels\<close>

text \<open>
  \<^verbatim>\<open>np.einsum('oi,min->mon', c, x)\<close> for \<open>c\<close> of shape \<open>(Fo, Fi)\<close> and \<open>x\<close>
  of shape \<open>(M, Fx, N)\<close>. The axis \<open>i\<close> of the two operands must agree, where
  einsum also broadcasts an axis of length one.
\<close>

definition einsum_oi_min :: "ndarray \<Rightarrow> ndarray \<Rightarrow> error + ndarray" where
  "einsum_oi_min c x =
     (case (shape c, shape x) of
        ([Fo, Fi], [M, Fx, N]) \<Rightarrow>
          if Fi = Fx \<or> Fi = 1 \<or> Fx = 1 then
            Inr \<lparr>shape = [M, Fo, N],
                 entries = map (\<lambda>idx.
                     let m = idx div (Fo * N); o' = (idx div N) mod Fo; n = idx mod N
                     in \<Sum>i<max Fi Fx.
                          entries c ! (o' * Fi + (if Fi = 1 then 0 else i))
                          * entries x ! ((m * Fx + (if Fx = 1 then 0 else i)) * N + n))
                   [0..<M * Fo * N]\<rparr>
          else Inl (ValueError ''operands could not be broadcast together'')
      | _ \<Rightarrow> Inl (ValueError ''einstein sum subscripts do not match the operands''))"

text \<open>
  \<^verbatim>\<open>L.__rmul__(x)\<close> for a sparse matrix \<open>L\<close> and a two-dimensional array \<open>x\<close>: the
  matrix product \<open>x @ L\<close>.
\<close>

definition rmul_val :: "spmatrix \<Rightarrow> ndarray \<Rightarrow> error + ndarray" where
  "rmul_val L x =
     (case shape x of
        [R, C] \<Rightarrow>
          if C = nrows L then
            Inr \<lparr>shape = [R, ncols L],
                 entries = map (\<lambda>idx.
                     let r = idx div ncols L; n = idx mod ncols L
                     in \<Sum>j<C. entries x ! (r * C + j) * coeffs L ! (j * ncols L + n))
                   [0..<R * ncols L]\<rparr>
          else Inl (ValueError ''dimension mismatch'')
      | _ \<Rightarrow> Inl (ValueError ''dimension mismatch''))"

definition scalar_mul :: "real \<Rightarrow> ndarray \<Rightarrow> ndarray" where
  "scalar_mul a x = x\<lparr>entries := map (\<lambda>v. a * v) (entries x)\<rparr>"

text \<open>
  Elementwise sum and difference of two arrays. Inside the filter the two shapes are
  always equal, which is the case written out.
\<close>

definition add :: "ndarray \<Rightarrow> ndarray \<Rightarrow> error + ndarray" where
  "add x y = (if shape x = shape y
     then Inr \<lparr>shape = shape x, entries = map2 (+) (entries x) (entries y)\<rparr>
     else Inl (ValueError ''operands could not be broadcast together''))"

definition subtract :: "ndarray \<Rightarrow> ndarray \<Rightarrow> error + ndarray" where
  "subtract x y = (if shape x = shape y
     then Inr \<lparr>shape = shape x, entries = map2 (-) (entries x) (entries y)\<rparr>
     else Inl (ValueError ''operands could not be broadcast together''))"

definition zeros :: "nat list \<Rightarrow> ndarray" where
  "zeros sh = \<lparr>shape = sh, entries = replicate (prod_list sh) 0\<rparr>"

text \<open>
  \<^verbatim>\<open>c[k]\<close> for the stored coefficients of shape \<open>(K, Fout, Fin)\<close>: the \<open>k\<close>-th
  matrix of shape \<open>(Fout, Fin)\<close>, or \<^verbatim>\<open>IndexError\<close>.
\<close>

definition getitem :: "ndarray \<Rightarrow> nat \<Rightarrow> error + ndarray" where
  "getitem c k =
     (case shape c of
        K # rest \<Rightarrow>
          if k < K
          then Inr \<lparr>shape = rest, entries = take (prod_list rest) (drop (k * prod_list rest) (entries c))\<rparr>
          else Inl IndexError
      | [] \<Rightarrow> Inl IndexError)"

subsection \<open>The operations on stored arrays\<close>

definition einsum :: "ndarray \<Rightarrow> nat \<Rightarrow> nat prog" where
  "einsum c x = (\<lambda>h. compute (einsum_oi_min c (arr h x)) h)"

definition rmul :: "spmatrix \<Rightarrow> nat \<Rightarrow> nat prog" where
  "rmul L x = (\<lambda>h. compute (rmul_val L (arr h x)) (h\<lparr>dots := dots h + 1\<rparr>))"

definition times :: "real \<Rightarrow> nat \<Rightarrow> nat prog" where
  "times a y = (\<lambda>h. new_array (scalar_mul a (arr h y)) h)"

definition plus :: "nat \<Rightarrow> nat \<Rightarrow> nat prog" where
  "plus a b = (\<lambda>h. compute (add (arr h a) (arr h b)) h)"

definition minus :: "nat \<Rightarrow> nat \<Rightarrow> nat prog" where
  "minus a b = (\<lambda>h. compute (subtract (arr h a) (arr h b)) h)"

text \<open>\<^verbatim>\<open>result += t\<close> writes into the buffer of \<^verbatim>\<open>result\<close>.\<close>

definition iadd :: "nat \<Rightarrow> nat \<Rightarrow> unit prog" where
  "iadd r t = (\<lambda>h.
     case add (arr h r) (arr h t) of
       Inl e \<Rightarrow> (Inl e, h)
     | Inr v \<Rightarrow> (Inr (), h\<lparr>bufs := (bufs h)[abuf (objs h ! r) := entries v]\<rparr>))"

text \<open>\<^verbatim>\<open>c[k]\<close> as a step of the program.\<close>

definition coefficient :: "ndarray \<Rightarrow> nat \<Rightarrow> ndarray prog" where
  "coefficient c k = (case getitem c k of Inl e \<Rightarrow> throw e | Inr ck \<Rightarrow> return ck)"

subsection \<open>\<^verbatim>\<open>_filter_recursive\<close>\<close>

text \<open>The inner functions \<^verbatim>\<open>mult\<close> and \<^verbatim>\<open>dot\<close> of \<^verbatim>\<open>_filter_recursive\<close>.\<close>

definition mult_recursive :: "nat \<Rightarrow> nat \<Rightarrow> nat \<Rightarrow> ndarray \<Rightarrow> nat \<Rightarrow> nat prog" where
  "mult_recursive M Fin N c x = andthen (set_shape x [M, Fin, N]) (\<lambda>_. einsum c x)"

definition dot_recursive :: "nat \<Rightarrow> nat \<Rightarrow> nat \<Rightarrow> spmatrix \<Rightarrow> nat \<Rightarrow> nat prog" where
  "dot_recursive M Fin N L x = andthen (set_shape x [M * Fin, N]) (\<lambda>_. rmul L x)"

text \<open>
  The body of \<^verbatim>\<open>for k in range(2, K)\<close>, with the variables
  \<open>(x0, x1, result)\<close>:
  \<^verbatim>\<open>x2 = 2 * dot(L, x1) - x0; result += mult(c[k], x2); x0, x1 = x1, x2\<close>.
\<close>

fun recursive_loop ::
  "nat \<Rightarrow> nat \<Rightarrow> nat \<Rightarrow> ndarray \<Rightarrow> spmatrix \<Rightarrow> nat list \<Rightarrow> nat \<times> nat \<times> nat \<Rightarrow> nat prog" where
  "recursive_loop M Fin N c L [] (x0, x1, result) = return result"
| "recursive_loop M Fin N c L (k # ks) (x0, x1, result) =
     andthen (dot_recursive M Fin N L x1) (\<lambda>d.
     andthen (times 2 d) (\<lambda>d2.
     andthen (minus d2 x0) (\<lambda>x2.
     andthen (coefficient c k) (\<lambda>ck.
     andthen (mult_recursive M Fin N ck x2) (\<lambda>t.
     andthen (iadd result t) (\<lambda>_.
     recursive_loop M Fin N c L ks (x1, x2, result)))))))"

definition unpack_error :: error where
  "unpack_error = ValueError ''not enough or too many values to unpack''"

text \<open>
  \<^verbatim>\<open>_filter_recursive(self, L, s)\<close>; \<open>s\<close> is the address of the signal. For
  \<open>K \<le> 1\<close> the loop over \<^verbatim>\<open>range(2, K)\<close> does not run.
\<close>

definition filter_recursive :: "chebyshev \<Rightarrow> spmatrix \<Rightarrow> nat \<Rightarrow> nat prog" where
  "filter_recursive self L s = (\<lambda>h.
     case coefficients self of
       None \<Rightarrow> (Inl no_coefficients, h)
     | Some c \<Rightarrow>
         (case shape c of
            [K, Fout, Fin_c] \<Rightarrow>
              (case ashape (objs h ! s) of
                 [M, Fin, N] \<Rightarrow>
                   andthen (view s) (\<lambda>x0.
                   andthen (coefficient c 0) (\<lambda>c0.
                   andthen (mult_recursive M Fin N c0 x0) (\<lambda>result.
                   if K > 1 then
                     andthen (dot_recursive M Fin N L x0) (\<lambda>x1.
                     andthen (coefficient c 1) (\<lambda>c1.
                     andthen (mult_recursive M Fin N c1 x1) (\<lambda>t.
                     andthen (iadd result t) (\<lambda>_.
                     recursive_loop M Fin N c L [2..<K] (x0, x1, result)))))
                   else return result))) h
               | _ \<Rightarrow> (Inl unpack_error, h))
          | _ \<Rightarrow> (Inl unpack_error, h)))"

subsection \<open>\<^verbatim>\<open>_filter_clenshaw\<close>\<close>

text \<open>
  The inner function \<^verbatim>\<open>dot\<close> of \<^verbatim>\<open>_filter_clenshaw\<close>:
  \<^verbatim>\<open>x.shape = (M*Fout, N); y = L.__rmul__(x); x.shape = (M, Fout, N);
  y.shape = (M, Fout, N)\<close>. Its \<^verbatim>\<open>mult\<close> is the plain \<^verbatim>\<open>einsum\<close>.
\<close>

definition dot_clenshaw :: "nat \<Rightarrow> nat \<Rightarrow> nat \<Rightarrow> spmatrix \<Rightarrow> nat \<Rightarrow> nat prog" where
  "dot_clenshaw M Fout N L x =
     andthen (set_shape x [M * Fout, N]) (\<lambda>_.
     andthen (rmul L x) (\<lambda>y.
     andthen (set_shape x [M, Fout, N]) (\<lambda>_.
     andthen (set_shape y [M, Fout, N]) (\<lambda>_.
     return y))))"

text \<open>\<^verbatim>\<open>b2\<close> is the Python number \<open>0\<close> until the first array is assigned to it.\<close>

datatype pyval = Num real | Ref nat

definition minus_val :: "nat \<Rightarrow> pyval \<Rightarrow> nat prog" where
  "minus_val a b =
     (case b of
        Num r \<Rightarrow> (\<lambda>h. new_array (arr h a\<lparr>entries := map (\<lambda>v. v - r) (entries (arr h a))\<rparr>) h)
      | Ref b' \<Rightarrow> minus a b')"

text \<open>
  The body of \<^verbatim>\<open>for k in range(K-2, 0, -1)\<close>, with the variables \<open>(b2, b1)\<close>:
  \<^verbatim>\<open>b = mult(c[k], s) + 2 * dot(L, b1) - b2; b2, b1 = b1, b\<close>.
\<close>

fun clenshaw_loop ::
  "nat \<Rightarrow> nat \<Rightarrow> nat \<Rightarrow> ndarray \<Rightarrow> spmatrix \<Rightarrow> nat \<Rightarrow> nat list \<Rightarrow> pyval \<times> nat \<Rightarrow> (pyval \<times> nat) prog" where
  "clenshaw_loop M Fout N c L s [] (b2, b1) = return (b2, b1)"
| "clenshaw_loop M Fout N c L s (k # ks) (b2, b1) =
     andthen (coefficient c k) (\<lambda>ck.
     andthen (einsum ck s) (\<lambda>t.
     andthen (dot_clenshaw M Fout N L b1) (\<lambda>d.
     andthen (times 2 d) (\<lambda>d2.
     andthen (plus t d2) (\<lambda>u.
     andthen (minus_val u b2) (\<lambda>b.
     clenshaw_loop M Fout N c L s ks (Ref b1, b)))))))"

definition filter_clenshaw :: "chebyshev \<Rightarrow> spmatrix \<Rightarrow> nat \<Rightarrow> nat prog" where
  "filter_clenshaw self L s = (\<lambda>h.
     case coefficients self of
       None \<Rightarrow> (Inl no_coefficients, h)
     | Some c \<Rightarrow>
         (case shape c of
            [K, Fout, Fin_c] \<Rightarrow>
              (case ashape (objs h ! s) of
                 [M, Fin, N] \<Rightarrow>
                   andthen (if K \<ge> 2
                            then andthen (coefficient c (K - 1)) (\<lambda>ck. einsum ck s)
                            else new_array (zeros [M, Fout, N])) (\<lambda>b1.
                   andthen (clenshaw_loop M Fout N c L s (rev [1..<K - 1]) (Num 0, b1)) (\<lambda>(b2, b1).
                   andthen (coefficient c 0) (\<lambda>c0.
                   andthen (einsum c0 s) (\<lambda>t.
                   andthen (dot_clenshaw M Fout N L b1) (\<lambda>d.
                   andthen (plus t d) (\<lambda>u.
                   minus_val u b2)))))) h
               | _ \<Rightarrow> (Inl unpack_error, h))
          | _ \<Rightarrow> (Inl unpack_error, h)))"

subsection \<open>\<^verbatim>\<open>_filter\<close>\<close>

text \<open>\<^verbatim>\<open>sparse.identity(G.N)\<close> and \<^verbatim>\<open>L = 2 * L / G.lmax - I\<close>.\<close>

definition identity :: "nat \<Rightarrow> spmatrix" where
  "identity n = \<lparr>nrows = n, ncols = n,
      coeffs = map (\<lambda>idx. if idx div n = idx mod n then 1 else 0) [0..<n * n]\<rparr>"

definition rescale_laplacian :: "graph \<Rightarrow> error + spmatrix" where
  "rescale_laplacian g =
     (let L = gL g; I = identity (gN g)
      in if nrows L = nrows I \<and> ncols L = ncols I
         then Inr \<lparr>nrows = nrows L, ncols = ncols L,
                   coeffs = map2 (\<lambda>l i. 2 * l / lmax g - i) (coeffs L) (coeffs I)\<rparr>
         else Inl (ValueError ''inconsistent shapes''))"

definition getattr_filter :: "string \<Rightarrow> (chebyshev \<Rightarrow> spmatrix \<Rightarrow> nat \<Rightarrow> nat prog) option" where
  "getattr_filter name =
     map_of [(''_filter_recursive'', filter_recursive),
             (''_filter_clenshaw'', filter_clenshaw)] name"

text \<open>
  \<^verbatim>\<open>Chebyshev._filter(self, s, method, _)\<close>. An \<^verbatim>\<open>AttributeError\<close> of the lookup
  or of the call becomes \<^verbatim>\<open>ValueError('Unknown method ...')\<close>.
\<close>

definition filter_signal :: "chebyshev \<Rightarrow> nat \<Rightarrow> string option \<Rightarrow> nat prog" where
  "filter_signal self s method = (\<lambda>h.
     case rescale_laplacian (G self) of
       Inl e \<Rightarrow> (Inl e, h)
     | Inr L \<Rightarrow>
         (let method = (case method of None \<Rightarrow> ''recursive'' | Some m \<Rightarrow> m)
          in case (case getattr_filter (''_filter_'' @ method) of
                     None \<Rightarrow> (Inl (AttributeError (''_filter_'' @ method)), h)
                   | Some f \<Rightarrow> f self L s h) of
               (r, h') \<Rightarrow> (except_attribute_error method r, h')))"

section \<open>Notions for the properties of the filter\<close>

text \<open>
  The entries, in row-major order, of an array of \<open>R\<close> rows of length \<open>N\<close> whose
  entry \<open>(r, n)\<close> is \<open>g r n\<close>. A signal of shape \<open>(M, F, N)\<close> has the rows
  \<open>r = m F + i\<close>.
\<close>

definition tab2 :: "nat \<Rightarrow> nat \<Rightarrow> (nat \<Rightarrow> nat \<Rightarrow> real) \<Rightarrow> real list" where
  "tab2 R N g = map (\<lambda>idx. g (idx div N) (idx mod N)) [0..<R * N]"

text \<open>
  The product of a row vector with a matrix, \<open>v A\<close>, which is what
  \<^verbatim>\<open>x @ L\<close> computes for each row of \<open>x\<close>; the matrix of a sparse matrix.
\<close>

definition vecmat :: "(nat \<Rightarrow> nat \<Rightarrow> real) \<Rightarrow> nat \<Rightarrow> (nat \<Rightarrow> real) \<Rightarrow> nat \<Rightarrow> real" where
  "vecmat A N v = (\<lambda>n. \<Sum>j<N. v j * A j n)"

definition matrix_of :: "spmatrix \<Rightarrow> nat \<Rightarrow> nat \<Rightarrow> real" where
  "matrix_of L = (\<lambda>j n. coeffs L ! (j * ncols L + n))"

text \<open>
  The contraction \<open>oi,min->mon\<close> on rows: row \<open>r = m Fo + o\<close> of the result mixes
  the rows \<open>m Fi + i\<close> of the argument with the coefficients \<open>c[o, i]\<close>.
\<close>

definition mix :: "real list \<Rightarrow> nat \<Rightarrow> nat \<Rightarrow> (nat \<Rightarrow> nat \<Rightarrow> real) \<Rightarrow> nat \<Rightarrow> nat \<Rightarrow> real" where
  "mix ck Fo Fi g = (\<lambda>r n. \<Sum>i<Fi. ck ! ((r mod Fo) * Fi + i) * g ((r div Fo) * Fi + i) n)"

text \<open>
  An address of the store whose object refers to an existing buffer; the stores that
  allocation, assignment to a shape, writing to a buffer, counting a multiplication and
  taking a view produce.
\<close>

definition live :: "heap \<Rightarrow> nat \<Rightarrow> bool" where
  "live h a \<longleftrightarrow> a < length (objs h) \<and> abuf (objs h ! a) < length (bufs h)"

definition alloc :: "ndarray \<Rightarrow> heap \<Rightarrow> heap" where
  "alloc v h = h\<lparr>objs := objs h @ [\<lparr>ashape = shape v, abuf = length (bufs h)\<rparr>],
                 bufs := bufs h @ [entries v]\<rparr>"

definition reshaped :: "nat \<Rightarrow> nat list \<Rightarrow> heap \<Rightarrow> heap" where
  "reshaped a sh h = h\<lparr>objs := (objs h)[a := (objs h ! a)\<lparr>ashape := sh\<rparr>]\<rparr>"

definition written :: "nat \<Rightarrow> real list \<Rightarrow> heap \<Rightarrow> heap" where
  "written b es h = h\<lparr>bufs := (bufs h)[b := es]\<rparr>"

definition tick :: "heap \<Rightarrow> heap" where
  "tick h = h\<lparr>dots := dots h + 1\<rparr>"

definition viewed :: "nat \<Rightarrow> heap \<Rightarrow> heap" where
  "viewed a h = h\<lparr>objs := objs h @ [objs h ! a]\<rparr>"

text \<open>
  The object at an address has a given shape and its buffer given entries; the buffer
  of an object.
\<close>

definition holds :: "heap \<Rightarrow> nat \<Rightarrow> nat list \<Rightarrow> real list \<Rightarrow> bool" where
  "holds h a sh es \<longleftrightarrow> live h a \<and> ashape (objs h ! a) = sh \<and> bufs h ! abuf (objs h ! a) = es"

definition bufof :: "heap \<Rightarrow> nat \<Rightarrow> nat" where
  "bufof h a = abuf (objs h ! a)"

text \<open>
  Every object and every buffer of the store \<open>h0\<close> is still there, unchanged, in
  \<open>h\<close>.
\<close>

definition frame :: "heap \<Rightarrow> heap \<Rightarrow> bool" where
  "frame h0 h \<longleftrightarrow> length (objs h0) \<le> length (objs h) \<and> length (bufs h0) \<le> length (bufs h)
     \<and> (\<forall>a<length (objs h0). objs h ! a = objs h0 ! a)
     \<and> (\<forall>b<length (bufs h0). bufs h ! b = bufs h0 ! b)"

text \<open>
  The Chebyshev recurrence as the code runs it, on a row \<open>v\<close>: \<open>v\<close>,
  \<open>v A\<close>, and \<open>2 (x\<^sub>k\<^sub>+\<^sub>1 A) - x\<^sub>k\<close>.
\<close>

fun diffuse :: "(nat \<Rightarrow> nat \<Rightarrow> real) \<Rightarrow> nat \<Rightarrow> nat \<Rightarrow> (nat \<Rightarrow> real) \<Rightarrow> nat \<Rightarrow> real" where
  "diffuse A N 0 v = v"
| "diffuse A N (Suc 0) v = vecmat A N v"
| "diffuse A N (Suc (Suc k)) v = (\<lambda>n. 2 * vecmat A N (diffuse A N (Suc k) v) n - diffuse A N k v n)"

text \<open>
  Row \<open>r\<close> of the signal, the entries of \<open>c[k]\<close>, the \<open>k\<close>-th diffused signal,
  its mixture with \<open>c[k]\<close>, and the sum of the first \<open>k\<close> mixtures.
\<close>

definition srow :: "real list \<Rightarrow> nat \<Rightarrow> nat \<Rightarrow> nat \<Rightarrow> real" where
  "srow S N r = (\<lambda>j. S ! (r * N + j))"

definition coefk :: "ndarray \<Rightarrow> nat \<Rightarrow> nat \<Rightarrow> nat \<Rightarrow> real list" where
  "coefk c Fo Fi k = take (Fo * Fi) (drop (k * (Fo * Fi)) (entries c))"

definition diffused :: "(nat \<Rightarrow> nat \<Rightarrow> real) \<Rightarrow> nat \<Rightarrow> real list \<Rightarrow> nat \<Rightarrow> nat \<Rightarrow> nat \<Rightarrow> real" where
  "diffused A N S k = (\<lambda>r. diffuse A N k (srow S N r))"

definition mixed :: "(nat \<Rightarrow> nat \<Rightarrow> real) \<Rightarrow> nat \<Rightarrow> real list \<Rightarrow> ndarray \<Rightarrow> nat \<Rightarrow> nat \<Rightarrow> nat \<Rightarrow> nat \<Rightarrow> nat \<Rightarrow> real" where
  "mixed A N S c Fo Fi k = mix (coefk c Fo Fi k) Fo Fi (diffused A N S k)"

definition partial_sum :: "(nat \<Rightarrow> nat \<Rightarrow> real) \<Rightarrow> nat \<Rightarrow> real list \<Rightarrow> ndarray \<Rightarrow> nat \<Rightarrow> nat \<Rightarrow> nat \<Rightarrow> nat \<Rightarrow> nat \<Rightarrow> real" where
  "partial_sum A N S c Fo Fi k = (\<lambda>r n. \<Sum>j<k. mixed A N S c Fo Fi j r n)"

text \<open>
  The invariant of the loop of \<^verbatim>\<open>_filter_recursive\<close> before the step \<open>k\<close>:
  the contents of \<open>x0\<close>, \<open>x1\<close> and \<open>result\<close>, that the three are different
  objects created by the call, that the buffer of \<open>result\<close> was created by the call and
  is shared with neither \<open>x0\<close> nor \<open>x1\<close>, that the store of the caller is intact, and
  the number of multiplications so far.
\<close>

definition rinv ::
  "nat \<Rightarrow> nat \<Rightarrow> nat \<Rightarrow> nat \<Rightarrow> (nat \<Rightarrow> nat \<Rightarrow> real) \<Rightarrow> real list \<Rightarrow> ndarray \<Rightarrow> heap \<Rightarrow> nat \<Rightarrow> heap
     \<Rightarrow> nat \<Rightarrow> nat \<Rightarrow> nat \<Rightarrow> bool" where
  "rinv M Fi Fo N A S c h0 k h x0 x1 res \<longleftrightarrow>
     holds h x0 [M * Fi, N] (tab2 (M * Fi) N (diffused A N S (k - 2))) \<and>
     holds h x1 [M, Fi, N] (tab2 (M * Fi) N (diffused A N S (k - 1))) \<and>
     holds h res [M, Fo, N] (tab2 (M * Fo) N (partial_sum A N S c Fo Fi k)) \<and>
     x0 \<noteq> x1 \<and> x0 \<noteq> res \<and> x1 \<noteq> res \<and>
     bufof h x0 \<noteq> bufof h res \<and> bufof h x1 \<noteq> bufof h res \<and>
     length (objs h0) \<le> x0 \<and> length (objs h0) \<le> x1 \<and> length (objs h0) \<le> res \<and>
     length (bufs h0) \<le> bufof h res \<and>
     frame h0 h \<and> dots h = dots h0 + (k - 1)"

text \<open>
  The Clenshaw recurrence on rows: \<open>mult(c[k], s)\<close>, one step of the loop on the
  pair \<open>(b2, b1)\<close>, and the last line.
\<close>

definition smix :: "real list \<Rightarrow> nat \<Rightarrow> ndarray \<Rightarrow> nat \<Rightarrow> nat \<Rightarrow> nat \<Rightarrow> nat \<Rightarrow> nat \<Rightarrow> real" where
  "smix S N c Fo Fi k = mix (coefk c Fo Fi k) Fo Fi (srow S N)"

definition cstep ::
  "(nat \<Rightarrow> nat \<Rightarrow> real) \<Rightarrow> nat \<Rightarrow> real list \<Rightarrow> ndarray \<Rightarrow> nat \<Rightarrow> nat \<Rightarrow> nat
    \<Rightarrow> (nat \<Rightarrow> nat \<Rightarrow> real) \<times> (nat \<Rightarrow> nat \<Rightarrow> real) \<Rightarrow> (nat \<Rightarrow> nat \<Rightarrow> real) \<times> (nat \<Rightarrow> nat \<Rightarrow> real)" where
  "cstep A N S c Fo Fi k st =
     (case st of (B2, B1) \<Rightarrow> (B1, \<lambda>r n. smix S N c Fo Fi k r n + 2 * vecmat A N (B1 r) n - B2 r n))"


text \<open>
  The store after the \<^verbatim>\<open>dot\<close> of \<^verbatim>\<open>_filter_clenshaw\<close>.
\<close>

definition dotted :: "nat \<Rightarrow> nat \<Rightarrow> nat \<Rightarrow> ndarray \<Rightarrow> heap \<Rightarrow> heap" where
  "dotted x M Fo Y h = reshaped (length (objs h)) [M, Fo, shape Y ! 1] (reshaped x [M, Fo, shape Y ! 1]
        (alloc Y (tick (reshaped x [M * Fo, shape Y ! 1] h))))"

text \<open>
  What \<open>b2\<close> stands for: a number stands for the constant array.
\<close>

definition valrep :: "heap \<Rightarrow> pyval \<Rightarrow> nat list \<Rightarrow> nat \<Rightarrow> nat \<Rightarrow> (nat \<Rightarrow> nat \<Rightarrow> real) \<Rightarrow> bool" where
  "valrep h b sh R N B \<longleftrightarrow>
     (case b of Num r \<Rightarrow> B = (\<lambda>i n. r) | Ref a \<Rightarrow> holds h a sh (tab2 R N B))"

text \<open>
  The invariant of the loop of \<^verbatim>\<open>_filter_clenshaw\<close>: the signal is unchanged and
  belongs to the caller, \<open>b1\<close> and \<open>b2\<close> are arrays created by the call with the
  given contents, the store of the caller is intact, and \<open>d\<close> multiplications were
  made.
\<close>

definition cinv ::
  "nat \<Rightarrow> nat \<Rightarrow> nat \<Rightarrow> nat \<Rightarrow> real list \<Rightarrow> heap \<Rightarrow> nat \<Rightarrow> heap \<Rightarrow> pyval \<Rightarrow> nat
     \<Rightarrow> (nat \<Rightarrow> nat \<Rightarrow> real) \<times> (nat \<Rightarrow> nat \<Rightarrow> real) \<Rightarrow> nat \<Rightarrow> bool" where
  "cinv M Fi Fo N S h0 s h b2 b1 BB d \<longleftrightarrow>
     holds h s [M, Fi, N] S \<and> s < length (objs h0) \<and>
     holds h b1 [M, Fo, N] (tab2 (M * Fo) N (snd BB)) \<and> length (objs h0) \<le> b1 \<and>
     valrep h b2 [M, Fo, N] (M * Fo) N (fst BB) \<and>
     (case b2 of Num r \<Rightarrow> True | Ref a \<Rightarrow> a \<noteq> b1 \<and> length (objs h0) \<le> a) \<and>
     frame h0 h \<and> dots h = dots h0 + d"

text \<open>
  The matrix \<open>2L/lmax - I\<close> that \<^verbatim>\<open>_filter\<close> passes on, and the array both
  methods compute from it.
\<close>

definition rescaled_matrix :: "graph \<Rightarrow> spmatrix" where
  "rescaled_matrix g = \<lparr>nrows = nrows (gL g), ncols = ncols (gL g),
      coeffs = map2 (\<lambda>l i. 2 * l / lmax g - i) (coeffs (gL g)) (coeffs (identity (gN g)))\<rparr>"











text \<open>
  A store \<open>h'\<close> that came from \<open>h\<close> by steps of the filter: it has grown, no
  object changed its buffer, and the first \<open>n\<close> objects and \<open>m\<close> buffers of
  \<open>h\<close> are unchanged. A step that returns an array created by it.
\<close>

definition evolves :: "nat \<Rightarrow> nat \<Rightarrow> heap \<Rightarrow> heap \<Rightarrow> bool" where
  "evolves n m h h' \<longleftrightarrow>
     length (objs h) \<le> length (objs h') \<and> length (bufs h) \<le> length (bufs h')
     \<and> (\<forall>a<length (objs h). bufof h' a = bufof h a)
     \<and> (\<forall>a<length (objs h). a < n \<longrightarrow> objs h' ! a = objs h ! a)
     \<and> (\<forall>b<length (bufs h). b < m \<longrightarrow> bufs h' ! b = bufs h ! b)"

definition fresh :: "nat \<Rightarrow> nat \<Rightarrow> heap \<Rightarrow> error + nat \<Rightarrow> heap \<Rightarrow> bool" where
  "fresh n m h r h' \<longleftrightarrow>
     evolves n m h h'
     \<and> (\<forall>a. r = Inr a \<longrightarrow> length (objs h) \<le> a \<and> a < length (objs h')
                          \<and> length (bufs h) \<le> bufof h' a)"

section \<open>Example inputs\<close>

text \<open>
  A path of two nodes with \<open>lmax = 2\<close>, a filter with the coefficients \<open>1, 2, 3\<close>, and
  a graph with \<open>lmax = 3\<close>.
\<close>

definition example_graph :: graph where
  "example_graph = \<lparr>gN = 2, gL = \<lparr>nrows = 2, ncols = 2, coeffs = [1, - 1, - 1, 1]\<rparr>, lmax = 2\<rparr>"

definition example_filter :: chebyshev where
  "example_filter = init example_graph (ArrayLike \<lparr>shape = [3], entries = [1, 2, 3]\<rparr>) 2"

definition graph_lmax3 :: graph where
  "graph_lmax3 = \<lparr>gN = 2, gL = \<lparr>nrows = 2, ncols = 2, coeffs = [3 / 2, - 3 / 2, - 3 / 2, 3 / 2]\<rparr>, lmax = 3\<rparr>"

text \<open>
  A store that holds one signal of shape \<open>(1, 1, 2)\<close> at address \<open>0\<close>, the stored
  coefficients of \<open>example_filter\<close>, a filter of order \<open>0\<close> with the single
  coefficient \<open>5\<close>, and a filter constructed from a \<^verbatim>\<open>Filter\<close> object.
\<close>

definition example_heap :: heap where
  "example_heap = \<lparr>objs = [\<lparr>ashape = [1, 1, 2], abuf = 0\<rparr>], bufs = [[1, 0]], dots = 0\<rparr>"

definition example_coefficients :: ndarray where
  "example_coefficients = \<lparr>shape = [3, 1, 1], entries = [1, 2, 3]\<rparr>"


definition function_filter :: chebyshev where
  "function_filter = init example_graph (FilterObject \<lparr>bank_Nf = 1, bank_g = [\<lambda>x. 1]\<rparr>) 30"

section \<open>Element types in the filter\<close>

text \<open>
  The element type of an array as far as the filter is concerned: single or double
  precision. numpy gives the result of an operation on two arrays the wider of the two
  types; a Python scalar does not widen an array.
\<close>

datatype dtype = Float32 | Float64

definition result_type :: "dtype \<Rightarrow> dtype \<Rightarrow> dtype" where
  "result_type a b = (if a = Float32 \<and> b = Float32 then Float32 else Float64)"

text \<open>
  The element types of the arrays of \<^verbatim>\<open>_filter_recursive\<close>, statement by statement, from the
  types of the coefficients, of the rescaled Laplacian and of the signal:
  \<^verbatim>\<open>x0 = s.view()\<close> has the type of \<open>s\<close>; \<^verbatim>\<open>mult\<close> (an \<^verbatim>\<open>einsum\<close>) and \<^verbatim>\<open>dot\<close> (a matrix
  product) widen; \<^verbatim>\<open>result += ...\<close> writes into \<^verbatim>\<open>result\<close> and keeps its type. No
  statement converts the signal.
\<close>

fun recursive_loop_dtype :: "dtype \<Rightarrow> dtype \<Rightarrow> nat list \<Rightarrow> dtype \<times> dtype \<times> dtype \<Rightarrow> dtype \<times> dtype \<times> dtype" where
  "recursive_loop_dtype cd Ld [] (x0, x1, result) = (x0, x1, result)"
| "recursive_loop_dtype cd Ld (k # ks) (x0, x1, result) =
     (let x2 = result_type (result_type Ld x1) x0;
          t = result_type cd x2
      in recursive_loop_dtype cd Ld ks (x1, x2, result))"

definition filter_recursive_dtype :: "dtype \<Rightarrow> dtype \<Rightarrow> dtype \<Rightarrow> nat \<Rightarrow> dtype" where
  "filter_recursive_dtype cd Ld sd K =
     (let x0 = sd;
          result = result_type cd x0
      in if K > 1 then
           (let x1 = result_type Ld x0;
                t = result_type cd x1
            in case recursive_loop_dtype cd Ld [2..<K] (x0, x1, result) of
                 (x0, x1, result) \<Rightarrow> result)
         else result)"

text \<open>
  \<^verbatim>\<open>cheby_op\<close> of \<^verbatim>\<open>operators.py\<close> starts with
  \<^verbatim>\<open>if signal.dtype == 'float32': signal = np.float64(signal)\<close>: the type of the signal that
  enters its recurrence.
\<close>

definition cheby_op_signal_dtype :: "dtype \<Rightarrow> dtype" where
  "cheby_op_signal_dtype d = (if d = Float32 then Float64 else d)"

section \<open>Shape of the stored coefficients\<close>






section \<open>The coefficient computation\<close>

text \<open>
  C2. For the constant kernel \<open>f = 1\<close>, order \<open>0\<close>, the default number of nodes and
  \<open>lmax = 3\<close> the code returns \<open>[0]\<close>: \<^verbatim>\<open>np.arange(1, N)\<close> is empty for
  \<open>N = 1\<close>. The quadrature of the specification gives \<open>[2]\<close>.
\<close>

theorem compute_cheby_coeff_constant_kernel:
  "compute_cheby_coeff (\<lambda>x. 1) graph_lmax3 0 None = Inr [0]
   \<and> cheby_coeff_spec (\<lambda>x. 1) 3 0 1 = [2]"
  by (simp add: compute_cheby_coeff_def cheby_coeff_spec_def graph_lmax3_def py_range_def py_int_def
      upto.simps)

section \<open>The three evaluation methods compute the Chebyshev series\<close>

lemma fits_bop: "fits F P a \<Longrightarrow> fits F P b \<Longrightarrow> fits F P (bop g a b)"
  by (cases a; cases b) (auto simp: set_zip)

lemma entry_bop:
  "fits F P a \<Longrightarrow> fits F P b \<Longrightarrow> f < F \<Longrightarrow> p < P \<Longrightarrow>
   entry (bop g a b) f p = g (entry a f p) (entry b f p)"
  by (cases a; cases b) auto

lemma is_full_bop:
  "is_full a \<or> is_full b \<or> (\<not> is_wide a \<and> a \<noteq> Scalar (entry a 0 0) \<and> is_wide b) \<Longrightarrow> is_full (bop g a b)"
  by (cases a; cases b) auto

lemma full_ext:
  assumes "fits F P a" "fits F P b" "is_full a" "is_full b"
    and "\<And>f p. f < F \<Longrightarrow> p < P \<Longrightarrow> entry a f p = entry b f p"
  shows "a = b"
proof -
  obtain m where a: "a = Full m" using assms(3) by (cases a) auto
  obtain m' where b: "b = Full m'" using assms(4) by (cases b) auto
  have "m = m'"
  proof (rule nth_equalityI)
    show "length m = length m'" using assms(1,2) a b by simp
  next
    fix f assume f: "f < length m"
    then have fF: "f < F" using assms(1) a by simp
    have l1: "length (m ! f) = P" using assms(1) a f by simp
    have l2: "length (m' ! f) = P" using assms(2) b fF by simp
    show "m ! f = m' ! f"
    proof (rule nth_equalityI)
      show "length (m ! f) = length (m' ! f)" using l1 l2 by simp
    next
      fix p assume "p < length (m ! f)"
      then have "p < P" using l1 by simp
      from assms(5)[OF fF this] show "m ! f ! p = m' ! f ! p" using a b by simp
    qed
  qed
  then show ?thesis using a b by simp
qed

lemma cos_three_term:
  "cos (real (Suc (Suc n)) * t) = 2 * cos t * cos (real (Suc n) * t) - cos (real n * t)"
proof -
  have a: "real (Suc (Suc n)) * t = real (Suc n) * t + t" by (simp add: algebra_simps)
  have b: "real n * t = real (Suc n) * t - t" by (simp add: algebra_simps)
  show ?thesis unfolding a   by (subst b) (simp add: cos_add cos_diff)
qed

lemma cos_arccos_Tcheb:
  "- 1 \<le> x \<Longrightarrow> x \<le> 1 \<Longrightarrow> cos (real k * arccos x) = Tcheb k x"
proof (induction k x rule: Tcheb.induct)
  case (1 x)
  show ?case by simp
next
  case (2 x)
  then show ?case by simp
next
  case (3 n x)
  then show ?case by (simp only: cos_three_term Tcheb.simps cos_arccos)
qed

lemma fits_row: "rows_ok c K F \<Longrightarrow> k < K \<Longrightarrow> fits F P (row c k)"
proof -
  assume a: "rows_ok c K F" "k < K"
  then have "Suc k \<le> K" by simp
  then have "Suc k * F \<le> K * F" by (rule mult_le_mono1)
  then show ?thesis using a by (simp add: row_def rows_ok_def)
qed

lemma entry_row: "rows_ok c K F \<Longrightarrow> k < K \<Longrightarrow> f < F \<Longrightarrow> entry (row c k) f p = coef (entries c) F k f"
proof -
  assume a: "rows_ok c K F" "k < K" "f < F"
  then have "Suc k \<le> K" by simp
  then have "Suc k * F \<le> K * F" by (rule mult_le_mono1)
  then have "k * F + f < length (entries c)" using a by (simp add: rows_ok_def)
  then show ?thesis using a by (simp add: row_def rows_ok_def coef_def)
qed

lemma repr_bop:
  "repr F P a ga \<Longrightarrow> repr F P b gb \<Longrightarrow> repr F P (bop h a b) (\<lambda>f p. h (ga f p) (gb f p))"
  by (auto simp: repr_def fits_bop entry_bop)

lemma repr_badd:
  "repr F P a ga \<Longrightarrow> repr F P b gb \<Longrightarrow> repr F P (badd a b) (\<lambda>f p. ga f p + gb f p)"
  unfolding badd_def by (rule repr_bop)

lemma repr_bsub:
  "repr F P a ga \<Longrightarrow> repr F P b gb \<Longrightarrow> repr F P (bsub a b) (\<lambda>f p. ga f p - gb f p)"
  unfolding bsub_def by (rule repr_bop)

lemma repr_bmul:
  "repr F P a ga \<Longrightarrow> repr F P b gb \<Longrightarrow> repr F P (bmul a b) (\<lambda>f p. ga f p * gb f p)"
  unfolding bmul_def by (rule repr_bop)

lemma repr_cong: "repr F P a g \<Longrightarrow> (\<And>f p. f < F \<Longrightarrow> p < P \<Longrightarrow> g f p = g' f p) \<Longrightarrow> repr F P a g'"
  by (simp add: repr_def)

lemma repr_Scalar: "repr F P (Scalar a) (\<lambda>f p. a)"
  by (simp add: repr_def)

lemma repr_Pts: "length xs = P \<Longrightarrow> repr F P (Pts xs) (\<lambda>f p. xs ! p)"
  by (simp add: repr_def)

lemma repr_row: "rows_ok c K F \<Longrightarrow> k < K \<Longrightarrow> repr F P (row c k) (\<lambda>f p. coef (entries c) F k f)"
  by (simp add: repr_def fits_row entry_row)

lemma repr_bmap: "repr F P a g \<Longrightarrow> repr F P (bmap h a) (\<lambda>f p. h (g f p))"
  by (cases a) (auto simp: repr_def)

lemma repr_ones: "length (entries x) = P \<Longrightarrow> repr F P (ones_like x) (\<lambda>f p. 1)"
  by (simp add: repr_def ones_like_def)

lemma repr_zeros: "length (entries x) = P \<Longrightarrow> repr F P (zeros_full F x) (\<lambda>f p. 0)"
  by (simp add: repr_def zeros_full_def)

lemma is_full_bop_l: "is_full a \<Longrightarrow> is_full (bop g a b)"
  by (cases a; cases b) auto

lemma is_full_bop_r: "is_full b \<Longrightarrow> is_full (bop g a b)"
  by (cases a; cases b) auto

lemma is_full_badd_l: "is_full a \<Longrightarrow> is_full (badd a b)"
  unfolding badd_def by (rule is_full_bop_l)

lemma is_full_bsub_l: "is_full a \<Longrightarrow> is_full (bsub a b)"
  unfolding bsub_def by (rule is_full_bop_l)

lemma is_full_row_Pts: "is_full (bop g (row c k) (Pts xs))"
  by (simp add: row_def)

lemma is_full_row_ones: "is_full (bop g (row c k) (ones_like x))"
  by (simp add: row_def ones_like_def)

lemma is_wide_bop_r: "is_wide b \<Longrightarrow> is_wide (bop g a b)"
  by (cases a; cases b) auto

lemma is_wide_bop_l: "is_wide a \<Longrightarrow> is_wide (bop g a b)"
  by (cases a; cases b) auto

lemma is_full_row_wide: "is_wide b \<Longrightarrow> is_full (bop g (row c k) b)"
  by (cases b) (auto simp: row_def)

lemma series_Suc: "series es F (Suc n) f v = series es F n f v + coef es F n f * Tcheb n v"
  by (simp add: series_def)

lemma series_0: "series es F 0 f v = 0"
  by (simp add: series_def)

lemma direct_fold:
  assumes c: "rows_ok c K F" and x: "length (entries x) = P"
    and dom: "\<forall>v\<in>set (entries x). - 1 \<le> v \<and> v \<le> 1"
  shows "n \<le> K \<Longrightarrow>
    (let r = fold (\<lambda>k result. badd result (bmul (row c k)
                 (bmap cos (bmul (Scalar (real k)) (bmap arccos (Pts (entries x)))))))
               [0..<n] (zeros_full F x)
     in is_full r \<and> repr F P r (\<lambda>f p. series (entries c) F n f (entries x ! p)))"
proof (induction n)
  case 0
  show ?case using repr_zeros[OF x] by (simp add: series_0 zeros_full_def)
next
  case (Suc n)
  let ?r = "fold (\<lambda>k result. badd result (bmul (row c k)
                 (bmap cos (bmul (Scalar (real k)) (bmap arccos (Pts (entries x)))))))
               [0..<n] (zeros_full F x)"
  from Suc have IH: "is_full ?r" "repr F P ?r (\<lambda>f p. series (entries c) F n f (entries x ! p))"
    by (simp_all add: Let_def)
  have n: "n < K" using Suc.prems by simp
  have t: "repr F P (bmul (row c n) (bmap cos (bmul (Scalar (real n)) (bmap arccos (Pts (entries x))))))
            (\<lambda>f p. coef (entries c) F n f * cos (real n * arccos (entries x ! p)))"
    by (intro repr_bmul repr_bmap repr_row[OF c n] repr_Scalar repr_Pts x)
  have "repr F P (badd ?r (bmul (row c n) (bmap cos (bmul (Scalar (real n)) (bmap arccos (Pts (entries x)))))))
          (\<lambda>f p. series (entries c) F n f (entries x ! p) + coef (entries c) F n f * cos (real n * arccos (entries x ! p)))"
    by (rule repr_badd[OF IH(2) t])
  then have "repr F P (badd ?r (bmul (row c n) (bmap cos (bmul (Scalar (real n)) (bmap arccos (Pts (entries x)))))))
          (\<lambda>f p. series (entries c) F (Suc n) f (entries x ! p))"
  proof (rule repr_cong)
    fix f p assume "f < F" "p < P"
    then have "entries x ! p \<in> set (entries x)" using x by simp
    then show "series (entries c) F n f (entries x ! p) + coef (entries c) F n f * cos (real n * arccos (entries x ! p))
       = series (entries c) F (Suc n) f (entries x ! p)"
      using dom by (simp add: series_Suc cos_arccos_Tcheb)
  qed
  moreover have "is_full (badd ?r (bmul (row c n) (bmap cos (bmul (Scalar (real n)) (bmap arccos (Pts (entries x)))))))"
    by (rule is_full_badd_l[OF IH(1)])
  ultimately show ?case by (simp add: Let_def)
qed

lemma repr_full_unique:
  "is_full a \<Longrightarrow> is_full b \<Longrightarrow> repr F P a g \<Longrightarrow> repr F P b g \<Longrightarrow> a = b"
  by (rule full_ext[of F P]) (auto simp: repr_def)

lemma getrow_row: "rows_ok c K F \<Longrightarrow> k < K \<Longrightarrow> getrow c k = Inr (row c k)"
  by (simp add: getrow_def row_def rows_ok_def)

lemma good_unique: "good c K F P x r1 \<Longrightarrow> good c K F P x r2 \<Longrightarrow> r1 = r2"
  by (auto simp: good_def intro: repr_full_unique)

lemma direct_good:
  assumes c: "rows_ok c K F" and x: "length (entries x) = P"
    and dom: "\<forall>v\<in>set (entries x). - 1 \<le> v \<and> v \<le> 1"
  shows "good c K F P x (evaluate_direct c x)"
proof -
  have "shape c ! 0 = K" "shape c ! Suc 0 = F" using c by (simp_all add: rows_ok_def)
  then show ?thesis
    using direct_fold[OF c x dom, of K]
    by (simp add: good_def evaluate_direct_def Let_def)
qed

lemma recursive_fold:
  assumes c: "rows_ok c K F" and x: "length (entries x) = P"
    and st: "repr F P x0 (\<lambda>f p. Tcheb 0 (entries x ! p))"
            "repr F P x1 (\<lambda>f p. Tcheb 1 (entries x ! p))"
            "is_full r" "repr F P r (\<lambda>f p. series (entries c) F (Suc (Suc 0)) f (entries x ! p))"
  shows "m + 2 \<le> K \<Longrightarrow>
    (case fold (recursive_step c (Pts (entries x))) [2..<m + 2] (x0, x1, r) of
       (y0, y1, res) \<Rightarrow>
          repr F P y0 (\<lambda>f p. Tcheb m (entries x ! p)) \<and>
          repr F P y1 (\<lambda>f p. Tcheb (Suc m) (entries x ! p)) \<and>
          is_full res \<and> repr F P res (\<lambda>f p. series (entries c) F (Suc (Suc m)) f (entries x ! p)))"
proof (induction m)
  case 0
  show ?case using st by simp
next
  case (Suc m)
  obtain y0 y1 res where f: "fold (recursive_step c (Pts (entries x))) [2..<m + 2] (x0, x1, r) = (y0, y1, res)"
    by (metis prod_cases3)
  from Suc f have IH: "repr F P y0 (\<lambda>f p. Tcheb m (entries x ! p))"
      "repr F P y1 (\<lambda>f p. Tcheb (Suc m) (entries x ! p))"
      "is_full res" "repr F P res (\<lambda>f p. series (entries c) F (Suc (Suc m)) f (entries x ! p))"
    by simp_all
  have k: "m + 2 < K" using Suc.prems by simp
  let ?x2 = "bsub (bmul (bmul (Scalar 2) (Pts (entries x))) y1) y0"
  have "repr F P ?x2 (\<lambda>f p. 2 * (entries x ! p) * Tcheb (Suc m) (entries x ! p) - Tcheb m (entries x ! p))"
    by (intro repr_bsub repr_bmul repr_Scalar repr_Pts x IH(1,2))
  then have x2: "repr F P ?x2 (\<lambda>f p. Tcheb (Suc (Suc m)) (entries x ! p))"
    by (rule repr_cong) simp
  have "repr F P (badd res (bmul (row c (m + 2)) ?x2))
     (\<lambda>f p. series (entries c) F (Suc (Suc m)) f (entries x ! p) + coef (entries c) F (m + 2) f * Tcheb (Suc (Suc m)) (entries x ! p))"
    by (intro repr_badd repr_bmul IH(4) repr_row[OF c k] x2)
  then have res: "repr F P (badd res (bmul (row c (m + 2)) ?x2)) (\<lambda>f p. series (entries c) F (Suc (Suc (Suc m))) f (entries x ! p))"
    by (rule repr_cong) (simp add: series_Suc)
  have "fold (recursive_step c (Pts (entries x))) [2..<Suc m + 2] (x0, x1, r)
        = (y1, ?x2, badd res (bmul (row c (m + 2)) ?x2))"
    using f by (simp add: recursive_step_def Let_def)
  then show ?case using IH(2) x2 res is_full_badd_l[OF IH(3)] by simp
qed

lemma recursive_good:
  assumes c: "rows_ok c K F" and x: "length (entries x) = P" and K: "1 \<le> K"
  shows "good c K F P x (evaluate_recursive c x)"
proof -
  have sh: "shape c ! 0 = K" using c by (simp add: rows_ok_def)
  have g0: "getrow c 0 = Inr (row c 0)" using getrow_row[OF c, of 0] K by simp
  have K0: "0 < K" using K by simp
  have "repr F P (bmul (row c 0) (ones_like x)) (\<lambda>f p. coef (entries c) F 0 f * 1)"
    by (intro repr_bmul repr_row[OF c K0] repr_ones x)
  then have r0: "repr F P (bmul (row c 0) (ones_like x)) (\<lambda>f p. series (entries c) F (Suc 0) f (entries x ! p))"
    by (rule repr_cong) (simp add: series_def)
  have f0: "is_full (bmul (row c 0) (ones_like x))"
    by (simp add: bmul_def is_full_row_ones)
  show ?thesis
  proof (cases "K = 1")
    case True
    then show ?thesis using r0 f0 g0 sh
      by (simp add: good_def evaluate_recursive_def Let_def)
  next
    case False
    then have K2: "2 \<le> K" using K by simp
    then obtain m where m: "K = m + 2" by (metis add.commute le_Suc_ex)
    let ?r = "badd (bmul (row c 0) (ones_like x)) (bmul (row c 1) (Pts (entries x)))"
    have K1: "1 < K" using K2 by simp
    have "repr F P ?r (\<lambda>f p. series (entries c) F (Suc 0) f (entries x ! p) + coef (entries c) F 1 f * (entries x ! p))"
      by (intro repr_badd repr_bmul r0 repr_row[OF c K1] repr_Pts x)
    then have r1: "repr F P ?r (\<lambda>f p. series (entries c) F (Suc (Suc 0)) f (entries x ! p))"
      by (rule repr_cong) (simp add: series_Suc)
    have f1: "is_full ?r" by (rule is_full_badd_l[OF f0])
    have a: "repr F P (ones_like x) (\<lambda>f p. Tcheb 0 (entries x ! p))"
      using repr_ones[OF x] by simp
    have b: "repr F P (Pts (entries x)) (\<lambda>f p. Tcheb 1 (entries x ! p))"
      using repr_Pts[OF x] by simp
    from recursive_fold[OF c x a b f1 r1, of m] m
    show ?thesis using g0 sh K2
      by (auto simp: good_def evaluate_recursive_def Let_def numeral_2_eq_2 split: prod.splits)
  qed
qed

lemma rev_upt_Suc: "1 \<le> j \<Longrightarrow> rev [1..<Suc j] = j # rev [1..<j]"
  by simp

lemma clenshaw_fold:
  assumes c: "rows_ok c K F" and x: "length (entries x) = P"
  shows "Suc j \<le> K \<Longrightarrow> repr F P b1 g1 \<Longrightarrow> repr F P b2 g2 \<Longrightarrow>
    (case fold (clenshaw_step c (Pts (entries x))) (rev [1..<Suc j]) (b2, b1) of
       (b2', b1') \<Rightarrow>
          repr F P (bsub (badd (row c 0) (bmul (Pts (entries x)) b1')) b2')
            (\<lambda>f p. series (entries c) F (Suc j) f (entries x ! p) + g1 f p * Tcheb (Suc j) (entries x ! p)
                 - g2 f p * Tcheb j (entries x ! p)))"
proof (induction j arbitrary: b1 b2 g1 g2)
  case 0
  have K0: "0 < K" using 0 by simp
  have "repr F P (bsub (badd (row c 0) (bmul (Pts (entries x)) b1)) b2)
                 (\<lambda>f p. coef (entries c) F 0 f + entries x ! p * g1 f p - g2 f p)"
    by (intro repr_bsub repr_badd repr_bmul repr_Pts x repr_row[OF c K0] 0)
  then have "repr F P (bsub (badd (row c 0) (bmul (Pts (entries x)) b1)) b2)
            (\<lambda>f p. series (entries c) F (Suc 0) f (entries x ! p) + g1 f p * Tcheb (Suc 0) (entries x ! p)
                 - g2 f p * Tcheb 0 (entries x ! p))"
    by (rule repr_cong) (simp add: series_def)
  then show ?case by simp
next
  case (Suc j)
  let ?X = "Pts (entries x)"
  let ?b = "bsub (badd (row c (Suc j)) (bmul (bmul (Scalar 2) ?X) b1)) b2"
  have k: "Suc j < K" using Suc.prems by simp
  have b: "repr F P ?b (\<lambda>f p. coef (entries c) F (Suc j) f + 2 * (entries x ! p) * g1 f p - g2 f p)"
    by (intro repr_bsub repr_badd repr_bmul repr_Scalar repr_Pts x repr_row[OF c k] Suc.prems)
  have step: "fold (clenshaw_step c ?X) (rev [1..<Suc (Suc j)]) (b2, b1)
      = fold (clenshaw_step c ?X) (rev [1..<Suc j]) (b1, ?b)"
    by (simp add: clenshaw_step_def Let_def)
  have le: "Suc j \<le> K" using k by simp
  obtain b2' b1' where fo: "fold (clenshaw_step c ?X) (rev [1..<Suc j]) (b1, ?b) = (b2', b1')"
    by (metis surj_pair)
  from Suc.IH[OF le b Suc.prems(2)] fo
  have "repr F P (bsub (badd (row c 0) (bmul ?X b1')) b2')
            (\<lambda>f p. series (entries c) F (Suc j) f (entries x ! p)
                 + (coef (entries c) F (Suc j) f + 2 * (entries x ! p) * g1 f p - g2 f p) * Tcheb (Suc j) (entries x ! p)
                 - g1 f p * Tcheb j (entries x ! p))"
    by simp
  then have "repr F P (bsub (badd (row c 0) (bmul ?X b1')) b2')
            (\<lambda>f p. series (entries c) F (Suc (Suc j)) f (entries x ! p) + g1 f p * Tcheb (Suc (Suc j)) (entries x ! p)
                 - g2 f p * Tcheb (Suc j) (entries x ! p))"
    by (rule repr_cong) (simp add: series_Suc algebra_simps)
  then show ?case unfolding step fo by simp
qed

lemma clenshaw_good:
  assumes c: "rows_ok c K F" and x: "length (entries x) = P" and K: "1 \<le> K"
  shows "good c K F P x (evaluate_clenshaw c x)"
proof -
  have sh: "shape c ! 0 = K" using c by (simp add: rows_ok_def)
  have g0: "getrow c 0 = Inr (row c 0)" using getrow_row[OF c, of 0] K by simp
  let ?X = "Pts (entries x)"
  have fin: "is_full (bsub (badd (row c 0) (bmul ?X b1)) b2)" for b1 b2
    by (rule is_full_bsub_l) (simp add: badd_def bmul_def is_full_row_wide is_wide_bop_l)
  have K0: "0 < K" using K by simp
  have frepr: "repr F P (bsub (badd (row c 0) (bmul ?X b1)) b2)
                 (\<lambda>f p. coef (entries c) F 0 f + entries x ! p * h1 f p - h2 f p)"
    if "repr F P b1 h1" "repr F P b2 h2" for b1 b2 h1 h2
    by (intro repr_bsub repr_badd repr_bmul repr_Pts x repr_row[OF c K0] that)
  show ?thesis
  proof (cases "K = 1")
    case True
    have "repr F P (bsub (badd (row c 0) (bmul ?X (Scalar 0))) (Scalar 0))
            (\<lambda>f p. series (entries c) F K f (entries x ! p))"
      by (rule repr_cong, rule frepr[OF repr_Scalar[of F P 0] repr_Scalar[of F P 0]]) (simp add: True series_def)
    then show ?thesis using True g0 sh fin
      by (simp add: good_def evaluate_clenshaw_def Let_def)
  next
    case False
    then obtain j where j: "K = Suc (Suc j)" using K
      by (metis One_nat_def Suc_pred le_neq_implies_less less_eq_Suc_le zero_less_diff)
    have k1: "Suc j < K" using j by simp
    have "repr F P (bmul (row c (Suc j)) (ones_like x)) (\<lambda>f p. coef (entries c) F (Suc j) f * 1)"
      by (intro repr_bmul repr_row[OF c k1] repr_ones x)
    then have "repr F P (bmul (row c (Suc j)) (ones_like x)) (\<lambda>f p. coef (entries c) F (Suc j) f)"
      by simp
    then have b1: "repr F P (bmul (row c (K - 1)) (ones_like x)) (\<lambda>f p. coef (entries c) F (Suc j) f)"
      using j by simp
    have le: "Suc j \<le> K" using j by simp
    obtain b2' b1' where fo: "fold (clenshaw_step c ?X) (rev [1..<K - 1]) (Scalar 0, bmul (row c (K - 1)) (ones_like x)) = (b2', b1')"
      by (metis surj_pair)
    from clenshaw_fold[OF c x le b1 repr_Scalar[of F P 0]] fo j
    have "repr F P (bsub (badd (row c 0) (bmul ?X b1')) b2')
            (\<lambda>f p. series (entries c) F (Suc j) f (entries x ! p) + coef (entries c) F (Suc j) f * Tcheb (Suc j) (entries x ! p)
                 - 0 * Tcheb j (entries x ! p))"
      by simp
    then have "repr F P (bsub (badd (row c 0) (bmul ?X b1')) b2') (\<lambda>f p. series (entries c) F K f (entries x ! p))"
      by (rule repr_cong) (use j in \<open>simp add: series_Suc\<close>)
    then show ?thesis using fo g0 sh fin j
      by (simp add: good_def evaluate_clenshaw_def Let_def)
  qed
qed

lemma length_flat_full: "is_full r \<Longrightarrow> fits F P r \<Longrightarrow> length (flat r) = F * P"
proof -
  assume a: "is_full r" "fits F P r"
  then obtain m where m: "r = Full m" by (cases r) auto
  have "map length m = replicate F P"
    using a(2) m by (auto simp: map_replicate_const[symmetric] intro: map_cong)
  then show ?thesis using m by (simp add: length_concat sum_list_replicate)
qed

lemma full_explicit:
  assumes "is_full r" "repr F P r (\<lambda>f p. h f (xs ! p))" "length xs = P"
  shows "r = Full (map (\<lambda>f. map (h f) xs) [0..<F])"
proof (rule repr_full_unique[OF assms(1) _ assms(2)])
  show "is_full (Full (map (\<lambda>f. map (h f) xs) [0..<F]))" by simp
  show "repr F P (Full (map (\<lambda>f. map (h f) xs) [0..<F])) (\<lambda>f p. h f (xs ! p))"
    using assms(3) by (auto simp: repr_def)
qed

lemma good_flat:
  assumes "good c K F P x res" "length (entries x) = P"
  shows "\<exists>r. res = Inr r \<and> flat r = series_table (entries c) F K (entries x) \<and> length (flat r) = F * P"
proof -
  from assms(1) obtain r where r: "res = Inr r" "is_full r"
     "repr F P r (\<lambda>f p. series (entries c) F K f (entries x ! p))"
    by (auto simp: good_def)
  have "r = Full (map (\<lambda>f. map (series (entries c) F K f) (entries x)) [0..<F])"
    by (rule full_explicit[OF r(2,3) assms(2)])
  moreover have "length (flat r) = F * P"
    using r(2,3) by (auto intro: length_flat_full simp: repr_def)
  ultimately show ?thesis using r(1) by (auto simp: series_table_def)
qed

lemma evaluate_dispatch:
  assumes c: "coefficients self = Some c" "shape c = [K, Fout, Fin]"
      "length (entries c) = K * (Fout * Fin)"
    and x: "entries x \<noteq> []" "length (entries x) = prod_list (shape x)"
    and m: "getattr_evaluate (''_evaluate_'' @ m) = Some f"
    and g: "good (c\<lparr>shape := [K, Fout * Fin] @ replicate (ndim x) 1\<rparr>) K (Fout * Fin) (length (entries x))
               (rescaled (G self) x)
               (f (c\<lparr>shape := [K, Fout * Fin] @ replicate (ndim x) 1\<rparr>) (rescaled (G self) x))"
  shows "evaluate self x (Some m) = evaluate_result self c x"
proof -
  let ?c = "c\<lparr>shape := [K, Fout * Fin] @ replicate (ndim x) 1\<rparr>"
  let ?x = "rescaled (G self) x"
  have lx: "length (entries ?x) = length (entries x)" by (simp add: rescaled_def)
  from good_flat[OF g lx] obtain r where r: "f ?c ?x = Inr r"
    "flat r = series_table (entries c) (Fout * Fin) K (entries ?x)"
    "length (flat r) = Fout * Fin * length (entries x)" by auto
  have nd: "ndim ?x = ndim x" by (simp add: rescaled_def ndim_def)
  have sz: "size_of ?x = length (entries x)" using x(2) by (simp add: size_of_def rescaled_def)
  show ?thesis
    using c(1,2) x(1) m r nd sz
    by (simp add: evaluate_def Let_def rescaled_def[symmetric] except_attribute_error_def
          evaluate_result_def) (simp add: rescaled_def)
qed

lemma rows_ok_reshaped:
  "length (entries c) = K * (Fout * Fin) \<Longrightarrow>
   rows_ok (c\<lparr>shape := [K, Fout * Fin] @ replicate n 1\<rparr>) K (Fout * Fin)"
  by (simp add: rows_ok_def)

lemma getattr_evaluate_simps:
  "getattr_evaluate (''_evaluate_'' @ ''direct'') = Some evaluate_direct"
  "getattr_evaluate (''_evaluate_'' @ ''recursive'') = Some evaluate_recursive"
  "getattr_evaluate (''_evaluate_'' @ ''clenshaw'') = Some evaluate_clenshaw"
  by (simp_all add: getattr_evaluate_def)

lemma evaluate_recursive_value:
  assumes c: "coefficients self = Some c" "shape c = [K, Fout, Fin]"
      "length (entries c) = K * (Fout * Fin)" "1 \<le> K"
    and x: "entries x \<noteq> []" "length (entries x) = prod_list (shape x)"
  shows "evaluate self x (Some ''recursive'') = evaluate_result self c x"
proof (rule evaluate_dispatch[OF c(1,2,3) x getattr_evaluate_simps(2)])
  have lx: "length (entries (rescaled (G self) x)) = length (entries x)" by (simp add: rescaled_def)
  show "good (c\<lparr>shape := [K, Fout * Fin] @ replicate (ndim x) 1\<rparr>) K (Fout * Fin) (length (entries x))
     (rescaled (G self) x)
     (evaluate_recursive (c\<lparr>shape := [K, Fout * Fin] @ replicate (ndim x) 1\<rparr>) (rescaled (G self) x))"
    by (rule recursive_good[OF rows_ok_reshaped[OF c(3)] lx c(4)])
qed

lemma evaluate_clenshaw_value:
  assumes c: "coefficients self = Some c" "shape c = [K, Fout, Fin]"
      "length (entries c) = K * (Fout * Fin)" "1 \<le> K"
    and x: "entries x \<noteq> []" "length (entries x) = prod_list (shape x)"
  shows "evaluate self x (Some ''clenshaw'') = evaluate_result self c x"
proof (rule evaluate_dispatch[OF c(1,2,3) x getattr_evaluate_simps(3)])
  have lx: "length (entries (rescaled (G self) x)) = length (entries x)" by (simp add: rescaled_def)
  show "good (c\<lparr>shape := [K, Fout * Fin] @ replicate (ndim x) 1\<rparr>) K (Fout * Fin) (length (entries x))
     (rescaled (G self) x)
     (evaluate_clenshaw (c\<lparr>shape := [K, Fout * Fin] @ replicate (ndim x) 1\<rparr>) (rescaled (G self) x))"
    by (rule clenshaw_good[OF rows_ok_reshaped[OF c(3)] lx c(4)])
qed

lemma evaluate_direct_value:
  assumes c: "coefficients self = Some c" "shape c = [K, Fout, Fin]"
      "length (entries c) = K * (Fout * Fin)"
    and x: "entries x \<noteq> []" "length (entries x) = prod_list (shape x)"
    and dom: "\<forall>v\<in>set (entries x). - 1 \<le> 2 * v / lmax (G self) - 1 \<and> 2 * v / lmax (G self) - 1 \<le> 1"
  shows "evaluate self x (Some ''direct'') = evaluate_result self c x"
proof (rule evaluate_dispatch[OF c(1,2,3) x getattr_evaluate_simps(1)])
  have lx: "length (entries (rescaled (G self) x)) = length (entries x)" by (simp add: rescaled_def)
  have d: "\<forall>v\<in>set (entries (rescaled (G self) x)). - 1 \<le> v \<and> v \<le> 1"
    using dom by (simp add: rescaled_def)
  show "good (c\<lparr>shape := [K, Fout * Fin] @ replicate (ndim x) 1\<rparr>) K (Fout * Fin) (length (entries x))
     (rescaled (G self) x)
     (evaluate_direct (c\<lparr>shape := [K, Fout * Fin] @ replicate (ndim x) 1\<rparr>) (rescaled (G self) x))"
    by (rule direct_good[OF rows_ok_reshaped[OF c(3)] lx d])
qed

text \<open>
  C3. With at least one coefficient and all rescaled points in \<open>[-1, 1]\<close>, the methods
  \<^verbatim>\<open>direct\<close>, \<^verbatim>\<open>recursive\<close> and \<^verbatim>\<open>clenshaw\<close> return the same array
  (and the same warning flag): the table of the Chebyshev series
  \<open>\<Sum>\<^sub>k c\<^sub>k T\<^sub>k(x')\<close>, one row per filter, squeezed.
\<close>

theorem evaluate_methods_agree:
  assumes "coefficients self = Some c" and "shape c = [K, Fout, Fin]"
    and "length (entries c) = K * (Fout * Fin)" and "1 \<le> K"
    and "entries x \<noteq> []" and "length (entries x) = prod_list (shape x)"
    and "\<forall>v\<in>set (entries x). - 1 \<le> 2 * v / lmax (G self) - 1 \<and> 2 * v / lmax (G self) - 1 \<le> 1"
  shows "evaluate self x (Some ''direct'') = evaluate_result self c x
       \<and> evaluate self x (Some ''recursive'') = evaluate_result self c x
       \<and> evaluate self x (Some ''clenshaw'') = evaluate_result self c x"
  using evaluate_direct_value[OF assms(1,2,3,5,6,7)] evaluate_recursive_value[OF assms(1-6)]
    evaluate_clenshaw_value[OF assms(1-6)]
  by simp

lemma expand_to_3_example: "expand_to_3 \<lparr>shape = [3], entries = [1, 2, 3]\<rparr> = \<lparr>shape = [3, 1, 1], entries = [1, 2, 3]\<rparr>"
  by (simp add: expand_to_3.simps ndim_def expand_dims_last_def)

lemma example_filter_simps:
  "coefficients example_filter = Some \<lparr>shape = [3, 1, 1], entries = [1, 2, 3]\<rparr>"
  "G example_filter = example_graph"
  by (simp_all add: example_filter_def init_def compute_coefficients_def expand_to_3_example)

theorem evaluate_methods_agree_witness:
  "evaluate example_filter \<lparr>shape = [2], entries = [0, 2]\<rparr> (Some ''direct'')
     = Inr (\<lparr>shape = [2], entries = [2, 6]\<rparr>, False)
   \<and> evaluate example_filter \<lparr>shape = [2], entries = [0, 2]\<rparr> (Some ''recursive'')
     = Inr (\<lparr>shape = [2], entries = [2, 6]\<rparr>, False)
   \<and> evaluate example_filter \<lparr>shape = [2], entries = [0, 2]\<rparr> (Some ''clenshaw'')
     = Inr (\<lparr>shape = [2], entries = [2, 6]\<rparr>, False)"
  using evaluate_methods_agree[of example_filter "\<lparr>shape = [3, 1, 1], entries = [1, 2, 3]\<rparr>" 3 1 1
      "\<lparr>shape = [2], entries = [0, 2]\<rparr>"]
  by (simp add: example_filter_simps example_graph_def evaluate_result_def series_table_def
      series_def coef_def lessThan_Suc numeral_3_eq_3)

section \<open>Both filter methods compute the Chebyshev filter\<close>

lemma length_tab2 [simp]: "length (tab2 R N g) = R * N"
  by (simp add: tab2_def)

lemma idx_lt: "r < R \<Longrightarrow> n < N \<Longrightarrow> r * N + n < R * (N::nat)"
proof -
  assume a: "r < R" "n < N"
  then have "r * N + n < r * N + N" by simp
  also have "\<dots> = Suc r * N" by simp
  also have "\<dots> \<le> R * N" using a(1) by (intro mult_le_mono1) simp
  finally show ?thesis .
qed

lemma div_lt: "idx < R * N \<Longrightarrow> idx div N < (R::nat)"
  by (simp add: less_mult_imp_div_less)

lemma nth_tab2: "r < R \<Longrightarrow> n < N \<Longrightarrow> tab2 R N g ! (r * N + n) = g r n"
  by (simp add: tab2_def idx_lt)

lemma tab2_cong:
  "(\<And>r n. r < R \<Longrightarrow> n < N \<Longrightarrow> g r n = g' r n) \<Longrightarrow> tab2 R N g = tab2 R N g'"
  unfolding tab2_def
proof (rule map_cong[OF refl])
  fix idx assume a: "\<And>r n. r < R \<Longrightarrow> n < N \<Longrightarrow> g r n = g' r n" "idx \<in> set [0..<R * N]"
  then have i: "idx < R * N" by simp
  then have "0 < N" by (cases N) auto
  then show "g (idx div N) (idx mod N) = g' (idx div N) (idx mod N)"
    using a(1)[of "idx div N" "idx mod N"] div_lt[OF i] by simp
qed

lemma tab2_self: "length es = R * N \<Longrightarrow> tab2 R N (\<lambda>r n. es ! (r * N + n)) = es"
  by (rule nth_equalityI) (simp_all add: tab2_def)

lemma rmul_val_tab2:
  assumes "nrows L = N" "ncols L = N"
  shows "rmul_val L \<lparr>shape = [R, N], entries = tab2 R N g\<rparr>
       = Inr \<lparr>shape = [R, N], entries = tab2 R N (\<lambda>r. vecmat (matrix_of L) N (g r))\<rparr>"
proof -
  have "map (\<lambda>idx. \<Sum>j<N. tab2 R N g ! (idx div N * N + j) * coeffs L ! (j * N + idx mod N)) [0..<R * N]
      = tab2 R N (\<lambda>r. vecmat (matrix_of L) N (g r))"
    unfolding tab2_def[of R N "\<lambda>r. vecmat (matrix_of L) N (g r)"]
  proof (rule map_cong[OF refl])
    fix idx assume "idx \<in> set [0..<R * N]"
    then have i: "idx < R * N" by simp
    have "\<And>j. j < N \<Longrightarrow> tab2 R N g ! (idx div N * N + j) = g (idx div N) j"
      using div_lt[OF i] by (simp add: nth_tab2)
    then show "(\<Sum>j<N. tab2 R N g ! (idx div N * N + j) * coeffs L ! (j * N + idx mod N))
        = vecmat (matrix_of L) N (g (idx div N)) (idx mod N)"
      using assms by (simp add: vecmat_def matrix_of_def)
  qed
  then show ?thesis using assms by (simp add: rmul_val_def Let_def)
qed

lemma scalar_mul_tab2:
  "scalar_mul a \<lparr>shape = sh, entries = tab2 R N g\<rparr>
     = \<lparr>shape = sh, entries = tab2 R N (\<lambda>r n. a * g r n)\<rparr>"
  by (simp add: scalar_mul_def tab2_def)

lemma map2_tab2:
  "map2 f (tab2 R N g) (tab2 R N g') = tab2 R N (\<lambda>r n. f (g r n) (g' r n))"
  by (rule nth_equalityI) (simp_all add: tab2_def)

lemma subtract_tab2:
  "subtract \<lparr>shape = sh, entries = tab2 R N g\<rparr> \<lparr>shape = sh, entries = tab2 R N g'\<rparr>
     = Inr \<lparr>shape = sh, entries = tab2 R N (\<lambda>r n. g r n - g' r n)\<rparr>"
  by (simp add: subtract_def map2_tab2)

lemma add_tab2:
  "add \<lparr>shape = sh, entries = tab2 R N g\<rparr> \<lparr>shape = sh, entries = tab2 R N g'\<rparr>
     = Inr \<lparr>shape = sh, entries = tab2 R N (\<lambda>r n. g r n + g' r n)\<rparr>"
  by (simp add: add_def map2_tab2)

lemma einsum_tab2:
  "einsum_oi_min \<lparr>shape = [Fo, Fi], entries = ck\<rparr> \<lparr>shape = [M, Fi, N], entries = tab2 (M * Fi) N g\<rparr>
     = Inr \<lparr>shape = [M, Fo, N], entries = tab2 (M * Fo) N (mix ck Fo Fi g)\<rparr>"
proof -
  have "map (\<lambda>idx. \<Sum>i<Fi. ck ! (idx div N mod Fo * Fi + (if Fi = 1 then 0 else i))
                * tab2 (M * Fi) N g ! ((idx div (Fo * N) * Fi + (if Fi = 1 then 0 else i)) * N + idx mod N))
          [0..<M * Fo * N]
      = tab2 (M * Fo) N (mix ck Fo Fi g)"
    unfolding tab2_def[of "M * Fo" N "mix ck Fo Fi g"]
  proof (rule map_cong[OF refl])
    fix idx assume "idx \<in> set [0..<M * Fo * N]"
    then have i: "idx < M * Fo * N" by simp
    then have N: "0 < N" by (cases N) auto
    have r: "idx div N < M * Fo" using i by (rule div_lt)
    have m: "idx div N div Fo < M" using r by (rule div_lt)
    have "idx div (N * Fo) = idx div N div Fo"
      by (rule div_mult2_eq)
    then have dd: "idx div (Fo * N) = idx div N div Fo"
      by (simp add: mult.commute)
    have "\<And>i. i < Fi \<Longrightarrow> (if Fi = 1 then 0 else i) = i" by simp
    moreover have "\<And>i. i < Fi \<Longrightarrow>
        tab2 (M * Fi) N g ! ((idx div N div Fo * Fi + i) * N + idx mod N) = g (idx div N div Fo * Fi + i) (idx mod N)"
      using m N by (intro nth_tab2) (simp_all add: idx_lt)
    ultimately show "(\<Sum>i<Fi. ck ! (idx div N mod Fo * Fi + (if Fi = 1 then 0 else i))
                * tab2 (M * Fi) N g ! ((idx div (Fo * N) * Fi + (if Fi = 1 then 0 else i)) * N + idx mod N))
        = mix ck Fo Fi g (idx div N) (idx mod N)"
      by (simp add: mix_def dd)
  qed
  then show ?thesis by (simp add: einsum_oi_min_def Let_def)
qed

lemma holds_arr: "holds h a sh es \<Longrightarrow> arr h a = \<lparr>shape = sh, entries = es\<rparr>"
  by (simp add: holds_def arr_def)


lemma sizes [simp]:
  "length (objs (alloc v h)) = Suc (length (objs h))"
  "length (bufs (alloc v h)) = Suc (length (bufs h))"
  "length (objs (reshaped a sh h)) = length (objs h)"
  "length (bufs (reshaped a sh h)) = length (bufs h)"
  "length (objs (written b es h)) = length (objs h)"
  "length (bufs (written b es h)) = length (bufs h)"
  "length (objs (tick h)) = length (objs h)"
  "length (bufs (tick h)) = length (bufs h)"
  "length (objs (viewed a h)) = Suc (length (objs h))"
  "length (bufs (viewed a h)) = length (bufs h)"
  by (simp_all add: alloc_def reshaped_def written_def tick_def viewed_def)

lemma dots_simps [simp]:
  "dots (alloc v h) = dots h"
  "dots (reshaped a sh h) = dots h"
  "dots (written b es h) = dots h"
  "dots (tick h) = Suc (dots h)"
  "dots (viewed a h) = dots h"
  by (simp_all add: alloc_def reshaped_def written_def tick_def viewed_def)

lemma objs_old:
  "a < length (objs h) \<Longrightarrow> objs (alloc v h) ! a = objs h ! a"
  "a < length (objs h) \<Longrightarrow> objs (viewed b h) ! a = objs h ! a"
  "a \<noteq> b \<Longrightarrow> objs (reshaped b sh h) ! a = objs h ! a"
  "objs (written c es h) = objs h"
  "objs (tick h) = objs h"
  by (simp_all add: alloc_def reshaped_def written_def tick_def viewed_def nth_append)

lemma bufs_old:
  "c < length (bufs h) \<Longrightarrow> bufs (alloc v h) ! c = bufs h ! c"
  "bufs (viewed b h) = bufs h"
  "bufs (reshaped b sh h) = bufs h"
  "c \<noteq> d \<Longrightarrow> bufs (written d es h) ! c = bufs h ! c"
  "bufs (tick h) = bufs h"
  by (simp_all add: alloc_def reshaped_def written_def tick_def viewed_def nth_append)

lemma bufof_simps:
  "a < length (objs h) \<Longrightarrow> bufof (alloc v h) a = bufof h a"
  "bufof (alloc v h) (length (objs h)) = length (bufs h)"
  "a < length (objs h) \<Longrightarrow> bufof (viewed b h) a = bufof h a"
  "bufof (viewed b h) (length (objs h)) = bufof h b"
  "bufof (written c es h) a = bufof h a"
  "bufof (tick h) a = bufof h a"
  by (auto simp: bufof_def alloc_def written_def tick_def viewed_def nth_append)

lemma bufof_reshaped: "a < length (objs h) \<Longrightarrow> bufof (reshaped b sh h) a = bufof h a"
  by (cases "a = b") (simp_all add: bufof_def reshaped_def)

lemma holds_alloc_old: "holds h a sh es \<Longrightarrow> holds (alloc v h) a sh es"
  by (simp add: holds_def live_def alloc_def nth_append)

lemma holds_alloc_new: "holds (alloc v h) (length (objs h)) (shape v) (entries v)"
  by (simp add: holds_def live_def alloc_def nth_append)

lemma holds_viewed_old: "holds h a sh es \<Longrightarrow> holds (viewed b h) a sh es"
  by (simp add: holds_def live_def viewed_def nth_append)


lemma holds_reshaped_other: "holds h a sh es \<Longrightarrow> a \<noteq> b \<Longrightarrow> holds (reshaped b sh' h) a sh es"
  by (simp add: holds_def live_def reshaped_def)

lemma holds_reshaped_same: "holds h a sh es \<Longrightarrow> holds (reshaped a sh' h) a sh' es"
  by (simp add: holds_def live_def reshaped_def)

lemma holds_written_other:
  "holds h a sh es \<Longrightarrow> bufof h a \<noteq> c \<Longrightarrow> holds (written c es' h) a sh es"
  by (simp add: holds_def live_def written_def bufof_def)

lemma holds_written_same:
  "holds h a sh es \<Longrightarrow> bufof h a = c \<Longrightarrow> holds (written c es' h) a sh es'"
  by (simp add: holds_def live_def written_def bufof_def)

lemma holds_tick: "holds h a sh es \<Longrightarrow> holds (tick h) a sh es"
  by (simp add: holds_def live_def tick_def)

lemma new_array_run: "new_array v h = (Inr (length (objs h)), alloc v h)"
  by (simp add: new_array_def alloc_def)


lemma set_shape_run:
  "holds h a sh es \<Longrightarrow> prod_list sh' = length es \<Longrightarrow> set_shape a sh' h = (Inr (), reshaped a sh' h)"
  by (simp add: set_shape_def reshaped_def holds_def arr_def)

lemma andthen_run: "p h = (Inr x, h') \<Longrightarrow> andthen p f h = f x h'"
  by (simp add: andthen_def)

lemma andthen_fail: "p h = (Inl e, h') \<Longrightarrow> andthen p f h = (Inl e, h')"
  by (simp add: andthen_def)

lemma return_run: "return x h = (Inr x, h)"
  by (simp add: return_def)

lemma einsum_run:
  "holds h x sh es \<Longrightarrow> einsum_oi_min c \<lparr>shape = sh, entries = es\<rparr> = Inr v \<Longrightarrow>
   einsum c x h = (Inr (length (objs h)), alloc v h)"
  by (simp add: einsum_def compute_def holds_arr new_array_run)

lemma rmul_run:
  "holds h x sh es \<Longrightarrow> rmul_val L \<lparr>shape = sh, entries = es\<rparr> = Inr v \<Longrightarrow>
   rmul L x h = (Inr (length (objs h)), alloc v (tick h))"
  by (simp add: rmul_def compute_def holds_arr new_array_run tick_def alloc_def)

lemma times_run:
  "holds h y sh es \<Longrightarrow>
   times a y h = (Inr (length (objs h)), alloc (scalar_mul a \<lparr>shape = sh, entries = es\<rparr>) h)"
  by (simp add: times_def holds_arr new_array_run)

lemma minus_run:
  "holds h a sh es \<Longrightarrow> holds h b sh' es' \<Longrightarrow>
   subtract \<lparr>shape = sh, entries = es\<rparr> \<lparr>shape = sh', entries = es'\<rparr> = Inr v \<Longrightarrow>
   minus a b h = (Inr (length (objs h)), alloc v h)"
  by (simp add: minus_def compute_def holds_arr new_array_run)

lemma plus_run:
  "holds h a sh es \<Longrightarrow> holds h b sh' es' \<Longrightarrow>
   add \<lparr>shape = sh, entries = es\<rparr> \<lparr>shape = sh', entries = es'\<rparr> = Inr v \<Longrightarrow>
   plus a b h = (Inr (length (objs h)), alloc v h)"
  by (simp add: plus_def compute_def holds_arr new_array_run)

lemma iadd_run:
  "holds h r sh es \<Longrightarrow> holds h t sh' es' \<Longrightarrow>
   add \<lparr>shape = sh, entries = es\<rparr> \<lparr>shape = sh', entries = es'\<rparr> = Inr v \<Longrightarrow>
   iadd r t h = (Inr (), written (bufof h r) (entries v) h)"
  by (simp add: iadd_def holds_arr written_def bufof_def)


lemma frame_alloc: "frame h0 h \<Longrightarrow> frame h0 (alloc v h)"
  by (simp add: frame_def alloc_def nth_append)


lemma frame_tick: "frame h0 h \<Longrightarrow> frame h0 (tick h)"
  by (simp add: frame_def tick_def)

lemma frame_reshaped: "frame h0 h \<Longrightarrow> length (objs h0) \<le> a \<Longrightarrow> frame h0 (reshaped a sh h)"
  by (simp add: frame_def reshaped_def)

lemma frame_written: "frame h0 h \<Longrightarrow> length (bufs h0) \<le> c \<Longrightarrow> frame h0 (written c es h)"
  by (simp add: frame_def written_def)

lemma dot_recursive_run:
  assumes "holds h x sh (tab2 (M * Fin) N g)" "nrows L = N" "ncols L = N"
  shows "dot_recursive M Fin N L x h =
     (Inr (length (objs h)),
      alloc \<lparr>shape = [M * Fin, N], entries = tab2 (M * Fin) N (\<lambda>r. vecmat (matrix_of L) N (g r))\<rparr>
        (tick (reshaped x [M * Fin, N] h)))"
proof -
  have 1: "set_shape x [M * Fin, N] h = (Inr (), reshaped x [M * Fin, N] h)"
    by (rule set_shape_run[OF assms(1)]) simp
  have 2: "holds (reshaped x [M * Fin, N] h) x [M * Fin, N] (tab2 (M * Fin) N g)"
    by (rule holds_reshaped_same[OF assms(1)])
  show ?thesis
    unfolding dot_recursive_def
    by (simp add: andthen_def 1 rmul_run[OF 2 rmul_val_tab2[OF assms(2,3)]])
qed

lemma mult_recursive_run:
  assumes "holds h x sh (tab2 (M * Fin) N g)" "shape ck = [Fo, Fin]"
  shows "mult_recursive M Fin N ck x h =
     (Inr (length (objs h)),
      alloc \<lparr>shape = [M, Fo, N], entries = tab2 (M * Fo) N (mix (entries ck) Fo Fin g)\<rparr>
        (reshaped x [M, Fin, N] h))"
proof -
  have 1: "set_shape x [M, Fin, N] h = (Inr (), reshaped x [M, Fin, N] h)"
    by (rule set_shape_run[OF assms(1)]) simp
  have 2: "holds (reshaped x [M, Fin, N] h) x [M, Fin, N] (tab2 (M * Fin) N g)"
    by (rule holds_reshaped_same[OF assms(1)])
  have ck: "ck = \<lparr>shape = [Fo, Fin], entries = entries ck\<rparr>" using assms(2) by simp
  have 3: "einsum_oi_min ck \<lparr>shape = [M, Fin, N], entries = tab2 (M * Fin) N g\<rparr>
      = Inr \<lparr>shape = [M, Fo, N], entries = tab2 (M * Fo) N (mix (entries ck) Fo Fin g)\<rparr>"
    by (subst ck) (rule einsum_tab2)
  show ?thesis
    unfolding mult_recursive_def
    by (simp add: andthen_def 1 einsum_run[OF 2 3])
qed

lemma times_run_tab2:
  assumes "holds h y sh (tab2 R N g)"
  shows "times a y h = (Inr (length (objs h)), alloc \<lparr>shape = sh, entries = tab2 R N (\<lambda>r n. a * g r n)\<rparr> h)"
  by (simp add: times_run[OF assms] scalar_mul_tab2)

lemma minus_run_tab2:
  assumes "holds h a sh (tab2 R N g)" "holds h b sh (tab2 R N g')"
  shows "minus a b h = (Inr (length (objs h)), alloc \<lparr>shape = sh, entries = tab2 R N (\<lambda>r n. g r n - g' r n)\<rparr> h)"
  by (rule minus_run[OF assms subtract_tab2])

lemma plus_run_tab2:
  assumes "holds h a sh (tab2 R N g)" "holds h b sh (tab2 R N g')"
  shows "plus a b h = (Inr (length (objs h)), alloc \<lparr>shape = sh, entries = tab2 R N (\<lambda>r n. g r n + g' r n)\<rparr> h)"
  by (rule plus_run[OF assms add_tab2])

lemma iadd_run_tab2:
  assumes "holds h r sh (tab2 R N g)" "holds h t sh (tab2 R N g')"
  shows "iadd r t h = (Inr (), written (bufof h r) (tab2 R N (\<lambda>r n. g r n + g' r n)) h)"
  using iadd_run[OF assms add_tab2] by simp

lemma getitem_3d:
  "shape c = [K, Fo, Fi] \<Longrightarrow> k < K \<Longrightarrow>
   getitem c k = Inr \<lparr>shape = [Fo, Fi], entries = take (Fo * Fi) (drop (k * (Fo * Fi)) (entries c))\<rparr>"
  by (simp add: getitem_def)

lemma coefficient_run:
  "shape c = [K, Fo, Fi] \<Longrightarrow> k < K \<Longrightarrow>
   coefficient c k h = (Inr \<lparr>shape = [Fo, Fi], entries = take (Fo * Fi) (drop (k * (Fo * Fi)) (entries c))\<rparr>, h)"
  by (simp add: coefficient_def getitem_3d return_def)

lemma holds_alloc_rec:
  "a = length (objs h) \<Longrightarrow> holds (alloc \<lparr>shape = sh, entries = es\<rparr> h) a sh es"
  using holds_alloc_new[of "\<lparr>shape = sh, entries = es\<rparr>" h] by simp

lemma holds_lt: "holds h a sh es \<Longrightarrow> a < length (objs h)"
  by (simp add: holds_def live_def)

lemma holds_buf_lt: "holds h a sh es \<Longrightarrow> bufof h a < length (bufs h)"
  by (simp add: holds_def live_def bufof_def)

lemma recursive_step:
  assumes inv: "rinv M Fi Fo N (matrix_of L) S c h0 k h x0 x1 res"
    and k: "2 \<le> k" "k < K" and c: "shape c = [K, Fo, Fi]" and L: "nrows L = N" "ncols L = N"
  shows "\<exists>h' x2. recursive_loop M Fi N c L (k # ks) (x0, x1, res) h
            = recursive_loop M Fi N c L ks (x1, x2, res) h'
          \<and> rinv M Fi Fo N (matrix_of L) S c h0 (Suc k) h' x1 x2 res"
proof -
  let ?A = "matrix_of L"
  let ?X = "diffused ?A N S"
  from inv have x0: "holds h x0 [M * Fi, N] (tab2 (M * Fi) N (?X (k - 2)))"
    and x1: "holds h x1 [M, Fi, N] (tab2 (M * Fi) N (?X (k - 1)))"
    and res: "holds h res [M, Fo, N] (tab2 (M * Fo) N (partial_sum ?A N S c Fo Fi k))"
    and ne: "x0 \<noteq> x1" "x0 \<noteq> res" "x1 \<noteq> res"
    and nb: "bufof h x0 \<noteq> bufof h res" "bufof h x1 \<noteq> bufof h res"
    and loc: "length (objs h0) \<le> x0" "length (objs h0) \<le> x1" "length (objs h0) \<le> res"
      "length (bufs h0) \<le> bufof h res"
    and fr: "frame h0 h" and dt: "dots h = dots h0 + (k - 1)"
    by (simp_all add: rinv_def)
  note lt = holds_lt[OF x0] holds_lt[OF x1] holds_lt[OF res]
  note blt = holds_buf_lt[OF x0] holds_buf_lt[OF x1] holds_buf_lt[OF res]
  \<comment> \<open>d = dot(L, x1)\<close>
  define h1 where "h1 = reshaped x1 [M * Fi, N] h"
  define D where "D = \<lparr>shape = [M * Fi, N], entries = tab2 (M * Fi) N (\<lambda>r. vecmat ?A N (?X (k - 1) r))\<rparr>"
  define h2 where "h2 = alloc D (tick h1)"
  define d where "d = length (objs h)"
  have r1: "dot_recursive M Fi N L x1 h = (Inr d, h2)"
    unfolding d_def h2_def h1_def D_def by (rule dot_recursive_run[OF x1 L])
  have x0_2: "holds h2 x0 [M * Fi, N] (tab2 (M * Fi) N (?X (k - 2)))"
    unfolding h2_def h1_def using ne
    by (intro holds_alloc_old holds_tick holds_reshaped_other x0) simp
  have x1_2: "holds h2 x1 [M * Fi, N] (tab2 (M * Fi) N (?X (k - 1)))"
    unfolding h2_def h1_def
    by (rule holds_alloc_old[OF holds_tick[OF holds_reshaped_same[OF x1]]])
  have res_2: "holds h2 res [M, Fo, N] (tab2 (M * Fo) N (partial_sum ?A N S c Fo Fi k))"
    unfolding h2_def h1_def using ne
    by (intro holds_alloc_old holds_tick holds_reshaped_other res) simp
  have d_2: "holds h2 d [M * Fi, N] (tab2 (M * Fi) N (\<lambda>r. vecmat ?A N (?X (k - 1) r)))"
    unfolding h2_def D_def by (rule holds_alloc_rec) (simp add: d_def h1_def)
  have len2: "length (objs h2) = Suc d" "length (bufs h2) = Suc (length (bufs h))"
    by (simp_all add: h2_def h1_def d_def)
  \<comment> \<open>d2 = 2 * d\<close>
  define h3 where "h3 = alloc \<lparr>shape = [M * Fi, N], entries = tab2 (M * Fi) N (\<lambda>r n. 2 * vecmat ?A N (?X (k - 1) r) n)\<rparr> h2"
  have r2: "times 2 d h2 = (Inr (Suc d), h3)"
    using times_run_tab2[OF d_2, of 2] by (simp add: h3_def len2)
  have d2_3: "holds h3 (Suc d) [M * Fi, N] (tab2 (M * Fi) N (\<lambda>r n. 2 * vecmat ?A N (?X (k - 1) r) n))"
    unfolding h3_def by (rule holds_alloc_rec) (simp add: len2)
  have x0_3: "holds h3 x0 [M * Fi, N] (tab2 (M * Fi) N (?X (k - 2)))"
    unfolding h3_def by (rule holds_alloc_old[OF x0_2])
  have x1_3: "holds h3 x1 [M * Fi, N] (tab2 (M * Fi) N (?X (k - 1)))"
    unfolding h3_def by (rule holds_alloc_old[OF x1_2])
  have res_3: "holds h3 res [M, Fo, N] (tab2 (M * Fo) N (partial_sum ?A N S c Fo Fi k))"
    unfolding h3_def by (rule holds_alloc_old[OF res_2])
  have len3: "length (objs h3) = d + 2" "length (bufs h3) = length (bufs h) + 2"
    by (simp_all add: h3_def len2)
  \<comment> \<open>x2 = d2 - x0\<close>
  obtain k' where k': "k = Suc (Suc k')" using k(1) by (metis add_2_eq_Suc le_Suc_ex)
  have Xk: "tab2 (M * Fi) N (\<lambda>r n. 2 * vecmat ?A N (?X (k - 1) r) n - ?X (k - 2) r n)
          = tab2 (M * Fi) N (?X k)"
    by (simp add: k' diffused_def)
  define h4 where "h4 = alloc \<lparr>shape = [M * Fi, N], entries = tab2 (M * Fi) N (?X k)\<rparr> h3"
  define x2 where "x2 = d + 2"
  have r3: "minus (Suc d) x0 h3 = (Inr x2, h4)"
    using minus_run_tab2[OF d2_3 x0_3, unfolded Xk] by (simp add: h4_def len3 x2_def)
  have x2_4: "holds h4 x2 [M * Fi, N] (tab2 (M * Fi) N (?X k))"
    unfolding h4_def by (rule holds_alloc_rec) (simp add: len3 x2_def)
  have x1_4: "holds h4 x1 [M * Fi, N] (tab2 (M * Fi) N (?X (k - 1)))"
    unfolding h4_def by (rule holds_alloc_old[OF x1_3])
  have res_4: "holds h4 res [M, Fo, N] (tab2 (M * Fo) N (partial_sum ?A N S c Fo Fi k))"
    unfolding h4_def by (rule holds_alloc_old[OF res_3])
  have len4: "length (objs h4) = d + 3" "length (bufs h4) = length (bufs h) + 3"
    by (simp_all add: h4_def len3)
  \<comment> \<open>t = mult(c[k], x2)\<close>
  define ck where "ck = \<lparr>shape = [Fo, Fi], entries = coefk c Fo Fi k\<rparr>"
  have r4: "coefficient c k h4 = (Inr ck, h4)"
    unfolding ck_def coefk_def by (rule coefficient_run[OF c k(2)])
  define h5 where "h5 = reshaped x2 [M, Fi, N] h4"
  define h6 where "h6 = alloc \<lparr>shape = [M, Fo, N], entries = tab2 (M * Fo) N (mixed ?A N S c Fo Fi k)\<rparr> h5"
  have r5: "mult_recursive M Fi N ck x2 h4 = (Inr (d + 3), h6)"
    using mult_recursive_run[OF x2_4, of ck Fo]
    by (simp add: ck_def h6_def h5_def len4 mixed_def)
  have x2ne: "x1 \<noteq> x2" "res \<noteq> x2" using lt by (simp_all add: x2_def d_def)
  have x2_6: "holds h6 x2 [M, Fi, N] (tab2 (M * Fi) N (?X k))"
    unfolding h6_def h5_def by (rule holds_alloc_old[OF holds_reshaped_same[OF x2_4]])
  have x1_6: "holds h6 x1 [M * Fi, N] (tab2 (M * Fi) N (?X (k - 1)))"
    unfolding h6_def h5_def by (intro holds_alloc_old holds_reshaped_other x1_4 x2ne)
  have res_6: "holds h6 res [M, Fo, N] (tab2 (M * Fo) N (partial_sum ?A N S c Fo Fi k))"
    unfolding h6_def h5_def by (intro holds_alloc_old holds_reshaped_other res_4 x2ne)
  have t_6: "holds h6 (d + 3) [M, Fo, N] (tab2 (M * Fo) N (mixed ?A N S c Fo Fi k))"
    unfolding h6_def by (rule holds_alloc_rec) (simp add: h5_def len4)
  \<comment> \<open>result += t\<close>
  have ps: "(\<lambda>r n. partial_sum ?A N S c Fo Fi k r n + mixed ?A N S c Fo Fi k r n)
      = partial_sum ?A N S c Fo Fi (Suc k)"
    by (simp add: partial_sum_def)
  define h7 where "h7 = written (bufof h6 res) (tab2 (M * Fo) N (partial_sum ?A N S c Fo Fi (Suc k))) h6"
  have r6: "iadd res (d + 3) h6 = (Inr (), h7)"
    using iadd_run_tab2[OF res_6 t_6] by (simp add: h7_def ps)
  \<comment> \<open>buffers\<close>
  have b_res: "bufof h6 res = bufof h res"
    using lt by (simp add: h6_def h5_def h4_def h3_def h2_def h1_def bufof_simps bufof_reshaped d_def)
  have b_x1: "bufof h6 x1 = bufof h x1"
    using lt by (simp add: h6_def h5_def h4_def h3_def h2_def h1_def bufof_simps bufof_reshaped d_def)
  have b_x2: "bufof h6 x2 = length (bufs h) + 2"
    using bufof_simps(2)[of _ h3]
    by (simp add: h6_def h5_def h4_def bufof_simps bufof_reshaped len3 len4 x2_def)
  have x1_7: "holds h7 x1 [M * Fi, N] (tab2 (M * Fi) N (?X (k - 1)))"
    unfolding h7_def using nb by (intro holds_written_other x1_6) (simp add: b_res b_x1)
  have x2_7: "holds h7 x2 [M, Fi, N] (tab2 (M * Fi) N (?X k))"
    unfolding h7_def using blt by (intro holds_written_other x2_6) (simp add: b_res b_x2)
  have res_7: "holds h7 res [M, Fo, N] (tab2 (M * Fo) N (partial_sum ?A N S c Fo Fi (Suc k)))"
    unfolding h7_def by (rule holds_written_same[OF res_6 refl])
  have "frame h0 h6"
    unfolding h6_def h5_def h4_def h3_def h2_def h1_def using loc lt
    by (intro frame_alloc frame_reshaped frame_tick fr) (simp_all add: x2_def d_def)
  then have fr7: "frame h0 h7"
    unfolding h7_def using loc by (intro frame_written) (simp_all add: b_res)
  have dots7: "dots h7 = dots h0 + k"
    using dt k(1) by (simp add: h7_def h6_def h5_def h4_def h3_def h2_def h1_def)
  have b7: "bufof h7 res = bufof h res" "bufof h7 x1 = bufof h x1" "bufof h7 x2 = length (bufs h) + 2"
    by (simp_all add: h7_def bufof_simps b_res b_x1 b_x2)
  have run: "recursive_loop M Fi N c L (k # ks) (x0, x1, res) h
            = recursive_loop M Fi N c L ks (x1, x2, res) h7"
    by (simp add: andthen_def r1 r2 r3 r4 r5 r6)
  have "rinv M Fi Fo N ?A S c h0 (Suc k) h7 x1 x2 res"
    unfolding rinv_def using x1_7 x2_7 res_7 x2ne ne nb loc fr7 dots7 b7 blt lt
    by (simp add: x2_def d_def k')
  with run show ?thesis by blast
qed













lemma dot_clenshaw_run:
  assumes x: "holds h x [M, Fo, N] (tab2 (M * Fo) N g)" and L: "nrows L = N" "ncols L = N"
  shows "dot_clenshaw M Fo N L x h =
     (Inr (length (objs h)),
      reshaped (length (objs h)) [M, Fo, N] (reshaped x [M, Fo, N]
        (alloc \<lparr>shape = [M * Fo, N], entries = tab2 (M * Fo) N (\<lambda>r. vecmat (matrix_of L) N (g r))\<rparr>
          (tick (reshaped x [M * Fo, N] h)))))"
proof -
  let ?Y = "\<lparr>shape = [M * Fo, N], entries = tab2 (M * Fo) N (\<lambda>r. vecmat (matrix_of L) N (g r))\<rparr>"
  define h1 where "h1 = reshaped x [M * Fo, N] h"
  define h2 where "h2 = alloc ?Y (tick h1)"
  define h3 where "h3 = reshaped x [M, Fo, N] h2"
  have 1: "set_shape x [M * Fo, N] h = (Inr (), h1)"
    unfolding h1_def by (rule set_shape_run[OF x]) simp
  have x1: "holds h1 x [M * Fo, N] (tab2 (M * Fo) N g)"
    unfolding h1_def by (rule holds_reshaped_same[OF x])
  have 2: "rmul L x h1 = (Inr (length (objs h)), h2)"
    using rmul_run[OF x1 rmul_val_tab2[OF L]] by (simp add: h2_def h1_def)
  have x2: "holds h2 x [M * Fo, N] (tab2 (M * Fo) N g)"
    unfolding h2_def by (rule holds_alloc_old[OF holds_tick[OF x1]])
  have y2: "holds h2 (length (objs h)) [M * Fo, N] (tab2 (M * Fo) N (\<lambda>r. vecmat (matrix_of L) N (g r)))"
    unfolding h2_def by (rule holds_alloc_rec) (simp add: h1_def)
  have 3: "set_shape x [M, Fo, N] h2 = (Inr (), h3)"
    unfolding h3_def by (rule set_shape_run[OF x2]) simp
  have ne: "length (objs h) \<noteq> x" using holds_lt[OF x] by simp
  have y3: "holds h3 (length (objs h)) [M * Fo, N] (tab2 (M * Fo) N (\<lambda>r. vecmat (matrix_of L) N (g r)))"
    unfolding h3_def by (rule holds_reshaped_other[OF y2 ne])
  have 4: "set_shape (length (objs h)) [M, Fo, N] h3 = (Inr (), reshaped (length (objs h)) [M, Fo, N] h3)"
    by (rule set_shape_run[OF y3]) simp
  show ?thesis
    unfolding dot_clenshaw_def
    by (simp add: andthen_def 1 2 3 4 return_def) (simp add: h3_def h2_def h1_def)
qed

lemma dotted_facts:
  assumes x: "holds h x [M, Fo, N] es" and Y: "shape Y = [M * Fo, N]"
  shows "holds (dotted x M Fo Y h) x [M, Fo, N] es"
    and "holds (dotted x M Fo Y h) (length (objs h)) [M, Fo, N] (entries Y)"
    and "\<And>a sh es'. holds h a sh es' \<Longrightarrow> a \<noteq> x \<Longrightarrow> holds (dotted x M Fo Y h) a sh es'"
    and "length (objs (dotted x M Fo Y h)) = Suc (length (objs h))"
    and "dots (dotted x M Fo Y h) = Suc (dots h)"
    and "\<And>h0. frame h0 h \<Longrightarrow> length (objs h0) \<le> x \<Longrightarrow> frame h0 (dotted x M Fo Y h)"
proof -
  have ne: "length (objs h) \<noteq> x" using holds_lt[OF x] by simp
  have Yr: "Y = \<lparr>shape = [M * Fo, N], entries = entries Y\<rparr>" using Y by simp
  show "holds (dotted x M Fo Y h) x [M, Fo, N] es"
    unfolding dotted_def Y
    by (simp, intro holds_reshaped_other[OF _ ne[symmetric]] holds_reshaped_same
        holds_alloc_old holds_tick, rule holds_reshaped_same[OF x])
  have "holds (alloc Y (tick (reshaped x [M * Fo, N] h))) (length (objs h)) [M * Fo, N] (entries Y)"
    by (subst Yr, rule holds_alloc_rec) simp
  then show "holds (dotted x M Fo Y h) (length (objs h)) [M, Fo, N] (entries Y)"
    unfolding dotted_def Y
    by (simp, intro holds_reshaped_same[of _ _ "[M * Fo, N]"] holds_reshaped_other[OF _ ne])
  show "\<And>a sh es'. holds h a sh es' \<Longrightarrow> a \<noteq> x \<Longrightarrow> holds (dotted x M Fo Y h) a sh es'"
  proof -
    fix a sh es' assume a: "holds h a sh es'" "a \<noteq> x"
    have "a \<noteq> length (objs h)" using holds_lt[OF a(1)] by simp
    then show "holds (dotted x M Fo Y h) a sh es'"
      unfolding dotted_def using a(2)
      by (intro holds_reshaped_other holds_alloc_old holds_tick a(1)) simp_all
  qed
  show "length (objs (dotted x M Fo Y h)) = Suc (length (objs h))"
    by (simp add: dotted_def)
  show "dots (dotted x M Fo Y h) = Suc (dots h)"
    by (simp add: dotted_def)
  show "\<And>h0. frame h0 h \<Longrightarrow> length (objs h0) \<le> x \<Longrightarrow> frame h0 (dotted x M Fo Y h)"
    unfolding dotted_def using holds_lt[OF x]
    by (intro frame_reshaped frame_alloc frame_tick) simp_all
qed

lemma minus_val_run:
  assumes "holds h u sh (tab2 R N U)" "valrep h b sh R N B"
  shows "minus_val u b h
     = (Inr (length (objs h)), alloc \<lparr>shape = sh, entries = tab2 R N (\<lambda>r n. U r n - B r n)\<rparr> h)"
proof (cases b)
  case (Num r)
  then have B: "B = (\<lambda>i n. r)" using assms(2) by (simp add: valrep_def)
  show ?thesis
    by (simp add: Num minus_val_def new_array_run holds_arr[OF assms(1)] B tab2_def comp_def)
next
  case (Ref a)
  then have "holds h a sh (tab2 R N B)" using assms(2) by (simp add: valrep_def)
  from minus_run_tab2[OF assms(1) this] show ?thesis by (simp add: Ref minus_val_def)
qed

lemma einsum_signal_run:
  assumes s: "holds h s [M, Fi, N] S" "length S = M * Fi * N" and c: "shape c = [K, Fo, Fi]"
  shows "einsum \<lparr>shape = [Fo, Fi], entries = coefk c Fo Fi k\<rparr> s h
      = (Inr (length (objs h)),
         alloc \<lparr>shape = [M, Fo, N], entries = tab2 (M * Fo) N (smix S N c Fo Fi k)\<rparr> h)"
proof -
  have "tab2 (M * Fi) N (srow S N) = tab2 (M * Fi) N (\<lambda>r n. S ! (r * N + n))"
    by (rule tab2_cong) (simp add: srow_def)
  then have S: "S = tab2 (M * Fi) N (srow S N)"
    using tab2_self[of S "M * Fi" N] s(2) by simp
  have "einsum_oi_min \<lparr>shape = [Fo, Fi], entries = coefk c Fo Fi k\<rparr> \<lparr>shape = [M, Fi, N], entries = S\<rparr>
      = Inr \<lparr>shape = [M, Fo, N], entries = tab2 (M * Fo) N (smix S N c Fo Fi k)\<rparr>"
    unfolding smix_def by (subst S) (rule einsum_tab2)
  from einsum_run[OF s(1) this] show ?thesis .
qed

lemma valrep_alloc: "valrep h b sh R N B \<Longrightarrow> valrep (alloc v h) b sh R N B"
  by (cases b) (simp_all add: valrep_def holds_alloc_old)

lemma clenshaw_step:
  assumes inv: "cinv M Fi Fo N S h0 s h b2 b1 (B2, B1) d"
    and k: "k < K" and c: "shape c = [K, Fo, Fi]" and L: "nrows L = N" "ncols L = N"
    and S: "length S = M * Fi * N"
  shows "\<exists>h' b. clenshaw_loop M Fo N c L s (k # ks) (b2, b1) h
            = clenshaw_loop M Fo N c L s ks (Ref b1, b) h'
          \<and> cinv M Fi Fo N S h0 s h' (Ref b1) b (cstep (matrix_of L) N S c Fo Fi k (B2, B1)) (Suc d)"
proof -
  let ?A = "matrix_of L"
  let ?W = "smix S N c Fo Fi k"
  from inv have s: "holds h s [M, Fi, N] S" and s0: "s < length (objs h0)"
    and b1: "holds h b1 [M, Fo, N] (tab2 (M * Fo) N B1)" and l1: "length (objs h0) \<le> b1"
    and b2: "valrep h b2 [M, Fo, N] (M * Fo) N B2"
    and b2l: "case b2 of Num r \<Rightarrow> True | Ref a \<Rightarrow> a \<noteq> b1 \<and> length (objs h0) \<le> a"
    and fr: "frame h0 h" and dt: "dots h = dots h0 + d"
    by (simp_all add: cinv_def)
  define n where "n = length (objs h)"
  have sb: "s \<noteq> b1" using s0 l1 by simp
  \<comment> \<open>mult(c[k], s)\<close>
  define ck where "ck = \<lparr>shape = [Fo, Fi], entries = coefk c Fo Fi k\<rparr>"
  have r1: "coefficient c k h = (Inr ck, h)"
    unfolding ck_def coefk_def by (rule coefficient_run[OF c k])
  define h1 where "h1 = alloc \<lparr>shape = [M, Fo, N], entries = tab2 (M * Fo) N ?W\<rparr> h"
  have r2: "einsum ck s h = (Inr n, h1)"
    unfolding ck_def h1_def n_def by (rule einsum_signal_run[OF s S c])
  have t1: "holds h1 n [M, Fo, N] (tab2 (M * Fo) N ?W)"
    unfolding h1_def by (rule holds_alloc_rec) (simp add: n_def)
  have b1_1: "holds h1 b1 [M, Fo, N] (tab2 (M * Fo) N B1)"
    unfolding h1_def by (rule holds_alloc_old[OF b1])
  have s_1: "holds h1 s [M, Fi, N] S"
    unfolding h1_def by (rule holds_alloc_old[OF s])
  have b2_1: "valrep h1 b2 [M, Fo, N] (M * Fo) N B2"
    unfolding h1_def by (rule valrep_alloc[OF b2])
  have len1: "length (objs h1) = Suc n" by (simp add: h1_def n_def)
  \<comment> \<open>dot(L, b1)\<close>
  define Y where "Y = \<lparr>shape = [M * Fo, N], entries = tab2 (M * Fo) N (\<lambda>r. vecmat ?A N (B1 r))\<rparr>"
  define h2 where "h2 = dotted b1 M Fo Y h1"
  have r3: "dot_clenshaw M Fo N L b1 h1 = (Inr (Suc n), h2)"
    using dot_clenshaw_run[OF b1_1 L] by (simp add: h2_def dotted_def Y_def len1)
  have Ysh: "shape Y = [M * Fo, N]" by (simp add: Y_def)
  note df = dotted_facts[OF b1_1 Ysh]
  have b1_2: "holds h2 b1 [M, Fo, N] (tab2 (M * Fo) N B1)"
    unfolding h2_def by (rule df(1))
  have y_2: "holds h2 (Suc n) [M, Fo, N] (tab2 (M * Fo) N (\<lambda>r. vecmat ?A N (B1 r)))"
    using df(2) by (simp add: h2_def len1 Y_def)
  have nb1: "n \<noteq> b1" using holds_lt[OF b1] by (simp add: n_def)
  have t_2: "holds h2 n [M, Fo, N] (tab2 (M * Fo) N ?W)"
    unfolding h2_def by (rule df(3)[OF t1 nb1])
  have s_2: "holds h2 s [M, Fi, N] S"
    unfolding h2_def by (rule df(3)[OF s_1 sb])
  have b2_2: "valrep h2 b2 [M, Fo, N] (M * Fo) N B2"
  proof (cases b2)
    case (Num r)
    then show ?thesis using b2_1 by (simp add: valrep_def)
  next
    case (Ref a)
    then have "holds h1 a [M, Fo, N] (tab2 (M * Fo) N B2)" "a \<noteq> b1"
      using b2_1 b2l by (simp_all add: valrep_def)
    then show ?thesis unfolding h2_def using Ref by (simp add: valrep_def df(3))
  qed
  have len2: "length (objs h2) = n + 2" using df(4) by (simp add: h2_def len1)
  have fr2: "frame h0 h2"
    unfolding h2_def using l1 by (intro df(6)) (simp_all add: h1_def frame_alloc fr)
  have dots2: "dots h2 = Suc (dots h)" using df(5) by (simp add: h2_def h1_def)
  \<comment> \<open>2 * dot(L, b1)\<close>
  define h3 where "h3 = alloc \<lparr>shape = [M, Fo, N], entries = tab2 (M * Fo) N (\<lambda>r n. 2 * vecmat ?A N (B1 r) n)\<rparr> h2"
  have r4: "times 2 (Suc n) h2 = (Inr (n + 2), h3)"
    using times_run_tab2[OF y_2, of 2] by (simp add: h3_def len2)
  have d2_3: "holds h3 (n + 2) [M, Fo, N] (tab2 (M * Fo) N (\<lambda>r n. 2 * vecmat ?A N (B1 r) n))"
    unfolding h3_def by (rule holds_alloc_rec) (simp add: len2)
  have t_3: "holds h3 n [M, Fo, N] (tab2 (M * Fo) N ?W)"
    unfolding h3_def by (rule holds_alloc_old[OF t_2])
  have len3: "length (objs h3) = n + 3" by (simp add: h3_def len2)
  \<comment> \<open>mult(c[k], s) + 2 * dot(L, b1)\<close>
  define h4 where "h4 = alloc \<lparr>shape = [M, Fo, N],
      entries = tab2 (M * Fo) N (\<lambda>r n. ?W r n + 2 * vecmat ?A N (B1 r) n)\<rparr> h3"
  have r5: "plus n (n + 2) h3 = (Inr (n + 3), h4)"
    using plus_run_tab2[OF t_3 d2_3] by (simp add: h4_def len3)
  have u_4: "holds h4 (n + 3) [M, Fo, N] (tab2 (M * Fo) N (\<lambda>r n. ?W r n + 2 * vecmat ?A N (B1 r) n))"
    unfolding h4_def by (rule holds_alloc_rec) (simp add: len3)
  have b2_4: "valrep h4 b2 [M, Fo, N] (M * Fo) N B2"
    unfolding h4_def h3_def by (intro valrep_alloc b2_2)
  have len4: "length (objs h4) = n + 4" by (simp add: h4_def len3)
  \<comment> \<open>... - b2\<close>
  define h5 where "h5 = alloc \<lparr>shape = [M, Fo, N],
      entries = tab2 (M * Fo) N (\<lambda>r n. ?W r n + 2 * vecmat ?A N (B1 r) n - B2 r n)\<rparr> h4"
  have r6: "minus_val (n + 3) b2 h4 = (Inr (n + 4), h5)"
    using minus_val_run[OF u_4 b2_4] by (simp add: h5_def len4)
  have b_5: "holds h5 (n + 4) [M, Fo, N] (tab2 (M * Fo) N (\<lambda>r n. ?W r n + 2 * vecmat ?A N (B1 r) n - B2 r n))"
    unfolding h5_def by (rule holds_alloc_rec) (simp add: len4)
  have b1_5: "holds h5 b1 [M, Fo, N] (tab2 (M * Fo) N B1)"
    unfolding h5_def h4_def h3_def by (intro holds_alloc_old b1_2)
  have s_5: "holds h5 s [M, Fi, N] S"
    unfolding h5_def h4_def h3_def by (intro holds_alloc_old s_2)
  have fr5: "frame h0 h5"
    unfolding h5_def h4_def h3_def by (intro frame_alloc fr2)
  have dots5: "dots h5 = dots h0 + Suc d"
    using dots2 dt by (simp add: h5_def h4_def h3_def)
  have run: "clenshaw_loop M Fo N c L s (k # ks) (b2, b1) h
            = clenshaw_loop M Fo N c L s ks (Ref b1, n + 4) h5"
    by (simp add: andthen_def r1 r2 r3 r4[simplified] r5[simplified] r6[simplified])
  have nl: "length (objs h0) \<le> n + 4" "n + 4 \<noteq> b1"
    using holds_lt[OF b1] l1 by (simp_all add: n_def)
  have "cinv M Fi Fo N S h0 s h5 (Ref b1) (n + 4) (cstep ?A N S c Fo Fi k (B2, B1)) (Suc d)"
    unfolding cinv_def cstep_def using s_5 s0 b_5 b1_5 l1 fr5 dots5 nl
    by (simp add: valrep_def)
  with run show ?thesis by blast
qed







lemma frame_holds: "frame h0 h \<Longrightarrow> holds h0 a sh es \<Longrightarrow> holds h a sh es"
  by (auto simp: frame_def holds_def live_def)

lemma rescale_laplacian_ok:
  "nrows (gL g) = gN g \<Longrightarrow> ncols (gL g) = gN g \<Longrightarrow> rescale_laplacian g = Inr (rescaled_matrix g)"
  by (simp add: rescale_laplacian_def rescaled_matrix_def identity_def Let_def)





lemma list3: "length xs = 3 \<Longrightarrow> xs = [xs ! 0, xs ! 1, xs ! 2]"
  by (cases xs; cases "tl xs"; cases "tl (tl xs)") auto









section \<open>The filter changes no array that existed before the call\<close>

lemma evolves_refl: "evolves n m h h"
  by (simp add: evolves_def)

lemma evolves_trans: "evolves n m h h' \<Longrightarrow> evolves n m h' h'' \<Longrightarrow> evolves n m h h''"
  by (auto simp: evolves_def)

lemma andthen_cases:
  assumes "andthen p f h = (r, h'')"
  obtains (fail) e where "p h = (Inl e, h'')" "r = Inl e"
        | (run) x h' where "p h = (Inr x, h')" "f x h' = (r, h'')"
  using assms by (auto simp: andthen_def split: prod.splits sum.splits)

lemma new_array_fresh: "new_array v h = (r, h') \<Longrightarrow> fresh n m h r h'"
  by (auto simp: new_array_def fresh_def evolves_def bufof_def nth_append)

lemma compute_fresh: "compute x h = (r, h') \<Longrightarrow> fresh n m h r h'"
proof (cases x)
  case (Inl e)
  assume "compute x h = (r, h')"
  with Inl show ?thesis by (auto simp: compute_def throw_def fresh_def evolves_refl)
next
  case (Inr v)
  assume "compute x h = (r, h')"
  with Inr show ?thesis by (simp add: compute_def new_array_fresh)
qed

lemma einsum_fresh: "einsum c x h = (r, h') \<Longrightarrow> fresh n m h r h'"
  by (simp add: einsum_def compute_fresh)

lemma rmul_fresh: "rmul L x h = (r, h') \<Longrightarrow> fresh n m h r h'"
proof -
  assume "rmul L x h = (r, h')"
  then have "fresh n m (h\<lparr>dots := dots h + 1\<rparr>) r h'" by (simp add: rmul_def compute_fresh)
  then show ?thesis by (simp add: fresh_def evolves_def bufof_def)
qed

lemma times_fresh: "times a y h = (r, h') \<Longrightarrow> fresh n m h r h'"
  by (simp add: times_def new_array_fresh)

lemma plus_fresh: "plus a b h = (r, h') \<Longrightarrow> fresh n m h r h'"
  by (simp add: plus_def compute_fresh)

lemma minus_fresh: "minus a b h = (r, h') \<Longrightarrow> fresh n m h r h'"
  by (simp add: minus_def compute_fresh)

lemma minus_val_fresh: "minus_val a b h = (r, h') \<Longrightarrow> fresh n m h r h'"
  by (cases b) (simp_all add: minus_val_def new_array_fresh minus_fresh)

lemma view_evolves:
  "view a h = (r, h') \<Longrightarrow>
   evolves n m h h' \<and> r = Inr (length (objs h)) \<and> length (objs h') = Suc (length (objs h))"
  by (auto simp: view_def evolves_def bufof_def nth_append)

lemma set_shape_evolves: "set_shape a sh h = (r, h') \<Longrightarrow> n \<le> a \<Longrightarrow> evolves n m h h'"
  by (cases "a < length (objs h)")
     (auto simp: set_shape_def evolves_def bufof_def nth_list_update split: if_splits)

lemma iadd_evolves: "iadd a t h = (r, h') \<Longrightarrow> m \<le> bufof h a \<Longrightarrow> evolves n m h h'"
  by (auto simp: iadd_def evolves_def bufof_def split: sum.splits)

lemma coefficient_same: "coefficient c k h = (r, h') \<Longrightarrow> h' = h"
  by (auto simp: coefficient_def throw_def return_def split: sum.splits)

lemma fresh_evolves: "fresh n m h r h' \<Longrightarrow> evolves n m h h'"
  by (simp add: fresh_def)

lemma fresh_after:
  "evolves n m h h1 \<Longrightarrow> fresh n m h1 r h' \<Longrightarrow> fresh n m h r h'"
  by (auto simp: fresh_def evolves_def)

lemma mult_recursive_fresh:
  assumes "mult_recursive M Fi N c x h = (r, h')" "n \<le> x"
  shows "fresh n m h r h'"
  using assms(1) unfolding mult_recursive_def
proof (cases rule: andthen_cases)
  case (fail e)
  then show ?thesis using set_shape_evolves[OF fail(1) assms(2)] by (simp add: fresh_def)
next
  case (run u h1)
  show ?thesis
    by (rule fresh_after[OF set_shape_evolves[OF run(1) assms(2)] einsum_fresh[OF run(2)]])
qed

lemma dot_recursive_fresh:
  assumes "dot_recursive M Fi N L x h = (r, h')" "n \<le> x"
  shows "fresh n m h r h'"
  using assms(1) unfolding dot_recursive_def
proof (cases rule: andthen_cases)
  case (fail e)
  then show ?thesis using set_shape_evolves[OF fail(1) assms(2)] by (simp add: fresh_def)
next
  case (run u h1)
  show ?thesis
    by (rule fresh_after[OF set_shape_evolves[OF run(1) assms(2)] rmul_fresh[OF run(2)]])
qed

lemma evolves_size:
  "evolves n m h h' \<Longrightarrow> n \<le> length (objs h) \<Longrightarrow> n \<le> length (objs h')"
  "evolves n m h h' \<Longrightarrow> m \<le> length (bufs h) \<Longrightarrow> m \<le> length (bufs h')"
  "evolves n m h h' \<Longrightarrow> a < length (objs h) \<Longrightarrow> a < length (objs h')"
  "evolves n m h h' \<Longrightarrow> a < length (objs h) \<Longrightarrow> bufof h' a = bufof h a"
  by (auto simp: evolves_def)

lemma fresh_local:
  "fresh n m h (Inr a) h' \<Longrightarrow> n \<le> length (objs h) \<Longrightarrow> n \<le> a"
  "fresh n m h (Inr a) h' \<Longrightarrow> a < length (objs h')"
  "fresh n m h (Inr a) h' \<Longrightarrow> m \<le> length (bufs h) \<Longrightarrow> m \<le> bufof h' a"
  by (auto simp: fresh_def)

lemma recursive_loop_evolves:
  "recursive_loop M Fi N c L ks (x0, x1, res) h = (r, h') \<Longrightarrow>
   n \<le> length (objs h) \<Longrightarrow> m \<le> length (bufs h) \<Longrightarrow>
   n \<le> x1 \<Longrightarrow> res < length (objs h) \<Longrightarrow> m \<le> bufof h res \<Longrightarrow> evolves n m h h'"
proof (induction ks arbitrary: x0 x1 h)
  case Nil
  then show ?case by (simp add: return_def evolves_refl)
next
  case (Cons k ks)
  note sz = Cons.prems(2,3)
  from Cons.prems(1) show ?case
    unfolding recursive_loop.simps
  proof (cases rule: andthen_cases)
    case (fail e)
    then show ?thesis using fresh_evolves[OF dot_recursive_fresh[OF fail(1) Cons.prems(4)]] by simp
  next
    case (run d h1)
    have e1: "evolves n m h h1" by (rule fresh_evolves[OF dot_recursive_fresh[OF run(1) Cons.prems(4)]])
    from run(2) show ?thesis
    proof (cases rule: andthen_cases)
      case (fail e)
      then show ?thesis using evolves_trans[OF e1 fresh_evolves[OF times_fresh[OF fail(1)]]] by simp
    next
      case (run d2 h2)
      have e2: "evolves n m h h2" by (rule evolves_trans[OF e1 fresh_evolves[OF times_fresh[OF run(1)]]])
      from run(2) show ?thesis
      proof (cases rule: andthen_cases)
        case (fail e)
        then show ?thesis using evolves_trans[OF e2 fresh_evolves[OF minus_fresh[OF fail(1)]]] by simp
      next
        case (run x2 h3)
        have f3: "fresh n m h2 (Inr x2) h3" by (rule minus_fresh[OF run(1)])
        have e3: "evolves n m h h3" by (rule evolves_trans[OF e2 fresh_evolves[OF f3]])
        have x2: "n \<le> x2" by (rule fresh_local(1)[OF f3 evolves_size(1)[OF e2 sz(1)]])
        from run(2) show ?thesis
        proof (cases rule: andthen_cases)
          case (fail e)
          then show ?thesis using coefficient_same[OF fail(1)] e3 by simp
        next
          case (run ck h4)
          have h4: "h4 = h3" by (rule coefficient_same[OF run(1)])
          from run(2) show ?thesis
          proof (cases rule: andthen_cases)
            case (fail e)
            then show ?thesis
              using evolves_trans[OF e3 fresh_evolves[OF mult_recursive_fresh[OF fail(1)[unfolded h4] x2]]]
              by simp
          next
            case (run t h5)
            have e5: "evolves n m h h5"
              by (rule evolves_trans[OF e3 fresh_evolves[OF mult_recursive_fresh[OF run(1)[unfolded h4] x2]]])
            have b5: "m \<le> bufof h5 res"
              using evolves_size(4)[OF e5 Cons.prems(5)] Cons.prems(6) by simp
            from run(2) show ?thesis
            proof (cases rule: andthen_cases)
              case (fail e)
              then show ?thesis using evolves_trans[OF e5 iadd_evolves[OF fail(1) b5]] by simp
            next
              case (run u h6)
              have e56: "evolves n m h5 h6" by (rule iadd_evolves[OF run(1) b5])
              have e6: "evolves n m h h6" by (rule evolves_trans[OF e5 e56])
              have "evolves n m h6 h'"
              proof (rule Cons.IH[OF run(2)])
                show "n \<le> length (objs h6)" by (rule evolves_size(1)[OF e6 sz(1)])
                show "m \<le> length (bufs h6)" by (rule evolves_size(2)[OF e6 sz(2)])
                show "n \<le> x2" by (rule x2)
                show "res < length (objs h6)" by (rule evolves_size(3)[OF e6 Cons.prems(5)])
                show "m \<le> bufof h6 res"
                  using evolves_size(4)[OF e6 Cons.prems(5)] Cons.prems(6) by simp
              qed
              then show ?thesis by (rule evolves_trans[OF e6])
            qed
          qed
        qed
      qed
    qed
  qed
qed

lemma recursive_body_evolves:
  assumes run: "andthen (view s) (\<lambda>x0.
                   andthen (coefficient c 0) (\<lambda>c0.
                   andthen (mult_recursive M Fin N c0 x0) (\<lambda>result.
                   if K > 1 then
                     andthen (dot_recursive M Fin N L x0) (\<lambda>x1.
                     andthen (coefficient c 1) (\<lambda>c1.
                     andthen (mult_recursive M Fin N c1 x1) (\<lambda>t.
                     andthen (iadd result t) (\<lambda>_.
                     recursive_loop M Fin N c L [2..<K] (x0, x1, result)))))
                   else return result))) h = (r, h')"
    and sz: "n \<le> length (objs h)" "m \<le> length (bufs h)"
  shows "evolves n m h h'"
  using run
proof (cases rule: andthen_cases)
  case (fail e)
  then show ?thesis using view_evolves[OF fail(1), of n m] by simp
next
  case (run x0 h1)
  have v: "evolves n m h h1" "x0 = length (objs h)"
    using view_evolves[OF run(1), of n m] by simp_all
  have x0: "n \<le> x0" using v(2) sz(1) by simp
  from run(2) show ?thesis
  proof (cases rule: andthen_cases)
    case (fail e)
    then show ?thesis using coefficient_same[OF fail(1)] v(1) by simp
  next
    case (run c0 h2)
    have h2: "h2 = h1" by (rule coefficient_same[OF run(1)])
    from run(2) show ?thesis
    proof (cases rule: andthen_cases)
      case (fail e)
      then show ?thesis
        using evolves_trans[OF v(1) fresh_evolves[OF mult_recursive_fresh[OF fail(1)[unfolded h2] x0]]]
        by simp
    next
      case (run res h3)
      have f3: "fresh n m h1 (Inr res) h3" by (rule mult_recursive_fresh[OF run(1)[unfolded h2] x0])
      have e3: "evolves n m h h3" by (rule evolves_trans[OF v(1) fresh_evolves[OF f3]])
      have res: "res < length (objs h3)" "m \<le> bufof h3 res"
        using fresh_local(2,3)[OF f3] evolves_size(2)[OF v(1) sz(2)] by simp_all
      show ?thesis
      proof (cases "K > 1")
        case False
        then show ?thesis using run(2) e3 by (simp add: return_def)
      next
        case True
        with run(2) have "andthen (dot_recursive M Fin N L x0) (\<lambda>x1.
                     andthen (coefficient c 1) (\<lambda>c1.
                     andthen (mult_recursive M Fin N c1 x1) (\<lambda>t.
                     andthen (iadd res t) (\<lambda>_.
                     recursive_loop M Fin N c L [2..<K] (x0, x1, res))))) h3 = (r, h')" by simp
        then show ?thesis
        proof (cases rule: andthen_cases)
          case (fail e)
          then show ?thesis
            using evolves_trans[OF e3 fresh_evolves[OF dot_recursive_fresh[OF fail(1) x0]]] by simp
        next
          case (run x1 h4)
          have f4: "fresh n m h3 (Inr x1) h4" by (rule dot_recursive_fresh[OF run(1) x0])
          have e4: "evolves n m h h4" by (rule evolves_trans[OF e3 fresh_evolves[OF f4]])
          have x1: "n \<le> x1" by (rule fresh_local(1)[OF f4 evolves_size(1)[OF e3 sz(1)]])
          from run(2) show ?thesis
          proof (cases rule: andthen_cases)
            case (fail e)
            then show ?thesis using coefficient_same[OF fail(1)] e4 by simp
          next
            case (run c1 h5)
            have h5: "h5 = h4" by (rule coefficient_same[OF run(1)])
            from run(2) show ?thesis
            proof (cases rule: andthen_cases)
              case (fail e)
              then show ?thesis
                using evolves_trans[OF e4 fresh_evolves[OF mult_recursive_fresh[OF fail(1)[unfolded h5] x1]]]
                by simp
            next
              case (run t h6)
              have e36: "evolves n m h3 h6"
                by (rule evolves_trans[OF fresh_evolves[OF f4]
                      fresh_evolves[OF mult_recursive_fresh[OF run(1)[unfolded h5] x1]]])
              have e6: "evolves n m h h6" by (rule evolves_trans[OF e3 e36])
              have b6: "m \<le> bufof h6 res" using evolves_size(4)[OF e36 res(1)] res(2) by simp
              have r6: "res < length (objs h6)" by (rule evolves_size(3)[OF e36 res(1)])
              from run(2) show ?thesis
              proof (cases rule: andthen_cases)
                case (fail e)
                then show ?thesis using evolves_trans[OF e6 iadd_evolves[OF fail(1) b6]] by simp
              next
                case (run u h7)
                have e67: "evolves n m h6 h7" by (rule iadd_evolves[OF run(1) b6])
                have e7: "evolves n m h h7" by (rule evolves_trans[OF e6 e67])
                have "evolves n m h7 h'"
                proof (rule recursive_loop_evolves[OF run(2)])
                  show "n \<le> length (objs h7)" by (rule evolves_size(1)[OF e7 sz(1)])
                  show "m \<le> length (bufs h7)" by (rule evolves_size(2)[OF e7 sz(2)])
                  show "n \<le> x1" by (rule x1)
                  show "res < length (objs h7)" by (rule evolves_size(3)[OF e67 r6])
                  show "m \<le> bufof h7 res" using evolves_size(4)[OF e67 r6] b6 by simp
                qed
                then show ?thesis by (rule evolves_trans[OF e7])
              qed
            qed
          qed
        qed
      qed
    qed
  qed
qed

lemma filter_recursive_evolves:
  assumes "filter_recursive self L s h = (r, h')"
    and "n \<le> length (objs h)" "m \<le> length (bufs h)"
  shows "evolves n m h h'"
proof (cases "coefficients self")
  case None
  then show ?thesis using assms(1) by (auto simp: filter_recursive_def evolves_refl)
next
  case (Some c)
  show ?thesis
  proof (cases "\<exists>K Fo Fi M Fin N. shape c = [K, Fo, Fi] \<and> ashape (objs h ! s) = [M, Fin, N]")
    case True
    then obtain K Fo Fi M Fin N where sh: "shape c = [K, Fo, Fi]" "ashape (objs h ! s) = [M, Fin, N]"
      by blast
    show ?thesis
      by (rule recursive_body_evolves[OF _ assms(2,3)])
         (use assms(1) Some sh in \<open>simp add: filter_recursive_def\<close>)
  next
    case False
    then have "h' = h" using assms(1) Some
      by (auto simp: filter_recursive_def split: list.splits)
    then show ?thesis by (simp add: evolves_refl)
  qed
qed

lemma fresh_then: "fresh n m h (Inr a) h1 \<Longrightarrow> evolves n m h1 h2 \<Longrightarrow> fresh n m h (Inr a) h2"
  by (auto simp: fresh_def evolves_def)

lemma fresh_fail: "evolves n m h h' \<Longrightarrow> fresh n m h (Inl e) h'"
  by (simp add: fresh_def)

lemma dot_clenshaw_fresh:
  assumes run: "dot_clenshaw M Fo N L x h = (r, h')" and x: "n \<le> x" and sz: "n \<le> length (objs h)"
  shows "fresh n m h r h'"
  using run unfolding dot_clenshaw_def
proof (cases rule: andthen_cases)
  case (fail e)
  then show ?thesis using set_shape_evolves[OF fail(1) x] by (simp add: fresh_fail)
next
  case (run u h1)
  have e1: "evolves n m h h1" by (rule set_shape_evolves[OF run(1) x])
  from run(2) show ?thesis
  proof (cases rule: andthen_cases)
    case (fail e)
    then show ?thesis using evolves_trans[OF e1 fresh_evolves[OF rmul_fresh[OF fail(1)]]]
      by (simp add: fresh_fail)
  next
    case (run y h2)
    have f2: "fresh n m h (Inr y) h2" by (rule fresh_after[OF e1 rmul_fresh[OF run(1)]])
    have y: "n \<le> y" by (rule fresh_local(1)[OF f2 sz])
    from run(2) show ?thesis
    proof (cases rule: andthen_cases)
      case (fail e)
      then show ?thesis
        using evolves_trans[OF fresh_evolves[OF f2] set_shape_evolves[OF fail(1) x]]
        by (simp add: fresh_fail)
    next
      case (run u3 h3)
      have f3: "fresh n m h (Inr y) h3" by (rule fresh_then[OF f2 set_shape_evolves[OF run(1) x]])
      from run(2) show ?thesis
      proof (cases rule: andthen_cases)
        case (fail e)
        then show ?thesis
          using evolves_trans[OF fresh_evolves[OF f3] set_shape_evolves[OF fail(1) y]]
          by (simp add: fresh_fail)
      next
        case (run u4 h4)
        have "fresh n m h (Inr y) h4" by (rule fresh_then[OF f3 set_shape_evolves[OF run(1) y]])
        then show ?thesis using run(2) by (simp add: return_def)
      qed
    qed
  qed
qed

lemma clenshaw_tail_fresh:
  assumes run: "andthen (coefficient c k) (\<lambda>ck.
       andthen (einsum ck s) (\<lambda>t.
       andthen (dot_clenshaw M Fo N L b1) (\<lambda>d. f t d))) h = (r, h')"
    and f: "\<And>t d h1 r h'. f t d h1 = (r, h') \<Longrightarrow> fresh n m h1 r h'"
    and b1: "n \<le> b1" and sz: "n \<le> length (objs h)"
  shows "fresh n m h r h'"
  using run
proof (cases rule: andthen_cases)
  case (fail e)
  then show ?thesis using coefficient_same[OF fail(1)] by (simp add: fresh_fail evolves_refl)
next
  case (run ck h1)
  have h1: "h1 = h" by (rule coefficient_same[OF run(1)])
  from run(2) show ?thesis
  proof (cases rule: andthen_cases)
    case (fail e)
    then show ?thesis using fresh_evolves[OF einsum_fresh[OF fail(1)[unfolded h1]]] by (simp add: fresh_fail)
  next
    case (run t h2)
    have e2: "evolves n m h h2" by (rule fresh_evolves[OF einsum_fresh[OF run(1)[unfolded h1]]])
    from run(2) show ?thesis
    proof (cases rule: andthen_cases)
      case (fail e)
      then show ?thesis
        using evolves_trans[OF e2 fresh_evolves[OF dot_clenshaw_fresh[OF fail(1) b1 evolves_size(1)[OF e2 sz]]]]
        by (simp add: fresh_fail)
    next
      case (run d h3)
      have e3: "evolves n m h h3"
        by (rule evolves_trans[OF e2 fresh_evolves[OF dot_clenshaw_fresh[OF run(1) b1 evolves_size(1)[OF e2 sz]]]])
      show ?thesis by (rule fresh_after[OF e3 f[OF run(2)]])
    qed
  qed
qed

lemma two_fresh:
  assumes "andthen p (\<lambda>u. q u) h = (r, h')"
    and "\<And>h r h'. p h = (r, h') \<Longrightarrow> fresh n m h r h'"
    and "\<And>u h r h'. q u h = (r, h') \<Longrightarrow> fresh n m h r h'"
  shows "fresh n m h r h'"
  using assms(1)
proof (cases rule: andthen_cases)
  case (fail e)
  then show ?thesis using fresh_evolves[OF assms(2)[OF fail(1)]] by (simp add: fresh_fail)
next
  case (run u h1)
  show ?thesis by (rule fresh_after[OF fresh_evolves[OF assms(2)[OF run(1)]] assms(3)[OF run(2)]])
qed

lemma clenshaw_loop_evolves:
  "clenshaw_loop M Fo N c L s ks (b2, b1) h = (r, h') \<Longrightarrow>
   n \<le> length (objs h) \<Longrightarrow> n \<le> b1 \<Longrightarrow>
   evolves n m h h' \<and> (\<forall>b2' b1'. r = Inr (b2', b1') \<longrightarrow> n \<le> b1')"
proof (induction ks arbitrary: b2 b1 h)
  case Nil
  then show ?case by (auto simp: return_def evolves_refl)
next
  case (Cons k ks)
  let ?rest = "\<lambda>b. clenshaw_loop M Fo N c L s ks (Ref b1, b)"
  let ?body = "andthen (coefficient c k) (\<lambda>ck.
     andthen (einsum ck s) (\<lambda>t.
     andthen (dot_clenshaw M Fo N L b1) (\<lambda>d.
     andthen (times 2 d) (\<lambda>d2.
     andthen (plus t d2) (\<lambda>u. minus_val u b2)))))"
  have split: "clenshaw_loop M Fo N c L s (k # ks) (b2, b1) h = andthen ?body ?rest h"
    by (simp add: andthen_def split: prod.splits sum.splits)
  have body: "fresh n m h r h'" if "?body h = (r, h')" for r h'
  proof (rule clenshaw_tail_fresh[OF that _ Cons.prems(3,2)])
    fix t d h1 r h'
    assume "andthen (times 2 d) (\<lambda>d2. andthen (plus t d2) (\<lambda>u. minus_val u b2)) h1 = (r, h')"
    then show "fresh n m h1 r h'"
    proof (rule two_fresh)
      show "\<And>h r h'. times 2 d h = (r, h') \<Longrightarrow> fresh n m h r h'" by (rule times_fresh)
      show "\<And>u h r h'. andthen (plus t u) (\<lambda>u. minus_val u b2) h = (r, h') \<Longrightarrow> fresh n m h r h'"
        by (erule two_fresh) (erule plus_fresh, erule minus_val_fresh)
    qed
  qed
  from Cons.prems(1)[unfolded split] show ?case
  proof (cases rule: andthen_cases)
    case (fail e)
    then show ?thesis using fresh_evolves[OF body[OF fail(1)]] by simp
  next
    case (run b h1)
    have f: "fresh n m h (Inr b) h1" by (rule body[OF run(1)])
    have "evolves n m h1 h' \<and> (\<forall>b2' b1'. r = Inr (b2', b1') \<longrightarrow> n \<le> b1')"
      by (rule Cons.IH[OF run(2) evolves_size(1)[OF fresh_evolves[OF f] Cons.prems(2)]
            fresh_local(1)[OF f Cons.prems(2)]])
    then show ?thesis using evolves_trans[OF fresh_evolves[OF f]] by blast
  qed
qed

lemma filter_clenshaw_evolves:
  assumes "filter_clenshaw self L s h = (r, h')"
    and sz: "n \<le> length (objs h)"
  shows "evolves n m h h'"
proof (cases "coefficients self")
  case None
  then show ?thesis using assms(1) by (auto simp: filter_clenshaw_def evolves_refl)
next
  case (Some c)
  show ?thesis
  proof (cases "\<exists>K Fo Fi M Fin N. shape c = [K, Fo, Fi] \<and> ashape (objs h ! s) = [M, Fin, N]")
    case False
    then have "h' = h" using assms(1) Some
      by (auto simp: filter_clenshaw_def split: list.splits)
    then show ?thesis by (simp add: evolves_refl)
  next
    case True
    then obtain K Fo Fi M Fin N where sh: "shape c = [K, Fo, Fi]" "ashape (objs h ! s) = [M, Fin, N]"
      by blast
    let ?first = "if K \<ge> 2 then andthen (coefficient c (K - 1)) (\<lambda>ck. einsum ck s)
                            else new_array (zeros [M, Fo, N])"
    let ?final = "\<lambda>b2 b1. andthen (coefficient c 0) (\<lambda>c0.
                   andthen (einsum c0 s) (\<lambda>t.
                   andthen (dot_clenshaw M Fo N L b1) (\<lambda>d.
                   andthen (plus t d) (\<lambda>u.
                   minus_val u b2))))"
    have run: "andthen ?first (\<lambda>b1.
                 andthen (clenshaw_loop M Fo N c L s (rev [1..<K - 1]) (Num 0, b1)) (\<lambda>(b2, b1). ?final b2 b1)) h
               = (r, h')"
      using assms(1) Some sh by (simp add: filter_clenshaw_def)
    have first: "fresh n m h r h'" if "?first h = (r, h')" for h r h'
    proof (cases "K \<ge> 2")
      case True
      with that have "andthen (coefficient c (K - 1)) (\<lambda>ck. einsum ck s) h = (r, h')" by simp
      then show ?thesis
      proof (cases rule: andthen_cases)
        case (fail e)
        then show ?thesis using coefficient_same[OF fail(1)] by (simp add: fresh_fail evolves_refl)
      next
        case (run ck h1)
        then show ?thesis using coefficient_same[OF run(1)] einsum_fresh[OF run(2)] by simp
      qed
    next
      case False
      with that show ?thesis by (simp add: new_array_fresh)
    qed
    from run show ?thesis
    proof (cases rule: andthen_cases)
      case (fail e)
      then show ?thesis using fresh_evolves[OF first[OF fail(1)]] by simp
    next
      case (run b1 h1)
      have f1: "fresh n m h (Inr b1) h1" by (rule first[OF run(1)])
      have e1: "evolves n m h h1" by (rule fresh_evolves[OF f1])
      have b1: "n \<le> b1" by (rule fresh_local(1)[OF f1 sz])
      have sz1: "n \<le> length (objs h1)" by (rule evolves_size(1)[OF e1 sz])
      from run(2) show ?thesis
      proof (cases rule: andthen_cases)
        case (fail e)
        then show ?thesis using clenshaw_loop_evolves[OF fail(1) sz1 b1, of m] evolves_trans[OF e1] by simp
      next
        case (run st h2)
        obtain b2' b1' where st: "st = (b2', b1')" by (cases st)
        have l: "evolves n m h1 h2" "n \<le> b1'"
          using clenshaw_loop_evolves[OF run(1) sz1 b1, of m] st by simp_all
        have e2: "evolves n m h h2" by (rule evolves_trans[OF e1 l(1)])
        have fin: "?final b2' b1' h2 = (r, h')" using run(2) st by simp
        have "fresh n m h2 r h'"
        proof (rule clenshaw_tail_fresh[OF fin _ l(2) evolves_size(1)[OF e2 sz]])
          fix t d h1 r h'
          assume "andthen (plus t d) (\<lambda>u. minus_val u b2') h1 = (r, h')"
          then show "fresh n m h1 r h'"
            by (rule two_fresh) (erule plus_fresh, erule minus_val_fresh)
        qed
        then show ?thesis using evolves_trans[OF e2] fresh_evolves by blast
      qed
    qed
  qed
qed

lemma filter_signal_evolves:
  assumes "filter_signal self s method h = (r, h')"
    and sz: "n \<le> length (objs h)" "m \<le> length (bufs h)"
  shows "evolves n m h h'"
proof (cases "rescale_laplacian (G self)")
  case (Inl e)
  then show ?thesis using assms(1) by (simp add: filter_signal_def evolves_refl)
next
  case (Inr L)
  define mth where "mth = (case method of None \<Rightarrow> ''recursive'' | Some m \<Rightarrow> m)"
  show ?thesis
  proof (cases "getattr_filter (''_filter_'' @ mth)")
    case None
    then show ?thesis using assms(1) Inr
      by (simp add: filter_signal_def mth_def[symmetric] Let_def evolves_refl del: append.simps)
  next
    case (Some f)
    then have f: "f = filter_recursive \<or> f = filter_clenshaw"
      by (auto simp: getattr_filter_def split: if_splits)
    obtain r0 where "f self L s h = (r0, h')"
      using assms(1) Inr Some
      by (auto simp: filter_signal_def mth_def[symmetric] Let_def split: prod.splits simp del: append.simps)
    with f show ?thesis
      using filter_recursive_evolves[OF _ sz] filter_clenshaw_evolves[OF _ sz(1)] by blast
  qed
qed

lemma filter_signal_frame:
  "filter_signal self s method h = (r, h') \<Longrightarrow> frame h h'"
  using filter_signal_evolves[where n = "length (objs h)" and m = "length (bufs h)"]
  by (simp add: evolves_def frame_def)

section \<open>The claims about the filter operator\<close>















lemma getattr_evaluate_unknown:
  "m \<notin> {''direct'', ''recursive'', ''clenshaw''} \<Longrightarrow> getattr_evaluate (''_evaluate_'' @ m) = None"
  by (simp add: getattr_evaluate_def)

lemma getattr_filter_unknown:
  "m \<notin> {''recursive'', ''clenshaw''} \<Longrightarrow> getattr_filter (''_filter_'' @ m) = None"
  by (simp add: getattr_filter_def)

text \<open>
  C6. For an object with stored coefficients and a non-empty \<open>x\<close>: a method name other
  than \<^verbatim>\<open>direct\<close>, \<^verbatim>\<open>recursive\<close>, \<^verbatim>\<open>clenshaw\<close> finds no evaluation method and
  \<^verbatim>\<open>_evaluate\<close> raises \<^verbatim>\<open>ValueError('Unknown method ...')\<close>; a name other than
  \<^verbatim>\<open>recursive\<close>, \<^verbatim>\<open>clenshaw\<close> (so also \<^verbatim>\<open>direct\<close>) finds no filter method and
  \<^verbatim>\<open>_filter\<close> raises the same error and leaves the store as it was: no array was created
  and no multiplication by the Laplacian was carried out.
\<close>

theorem unknown_method_raises:
  assumes "coefficients self = Some c" and "length (shape c) = 3" and "entries x \<noteq> []"
    and "nrows (gL (G self)) = gN (G self)" and "ncols (gL (G self)) = gN (G self)"
  shows "(m \<notin> {''direct'', ''recursive'', ''clenshaw''} \<longrightarrow>
            getattr_evaluate (''_evaluate_'' @ m) = None
          \<and> evaluate self x (Some m) = Inl (ValueError (''Unknown method '' @ m @ ''.'')))
       \<and> (m \<notin> {''recursive'', ''clenshaw''} \<longrightarrow>
            getattr_filter (''_filter_'' @ m) = None
          \<and> filter_signal self s (Some m) h = (Inl (ValueError (''Unknown method '' @ m @ ''.'')), h))"
proof (intro conjI impI)
  assume m: "m \<notin> {''direct'', ''recursive'', ''clenshaw''}"
  show "getattr_evaluate (''_evaluate_'' @ m) = None" by (rule getattr_evaluate_unknown[OF m])
  obtain K Fo Fi where c: "shape c = [K, Fo, Fi]" using list3[OF assms(2)] by blast
  show "evaluate self x (Some m) = Inl (ValueError (''Unknown method '' @ m @ ''.''))"
    using assms(1,3) getattr_evaluate_unknown[OF m] c
    by (simp add: evaluate_def Let_def except_attribute_error_def unknown_method_def
        del: append.simps)
next
  assume m: "m \<notin> {''recursive'', ''clenshaw''}"
  show "getattr_filter (''_filter_'' @ m) = None" by (rule getattr_filter_unknown[OF m])
  show "filter_signal self s (Some m) h = (Inl (ValueError (''Unknown method '' @ m @ ''.'')), h)"
    using getattr_filter_unknown[OF m] assms(4,5)
    by (simp add: filter_signal_def rescale_laplacian_ok except_attribute_error_def
        unknown_method_def del: append.simps)
qed

theorem unknown_method_raises_witness:
  "evaluate example_filter \<lparr>shape = [1], entries = [1]\<rparr> (Some ''bogus'')
     = Inl (ValueError ''Unknown method bogus.'')
   \<and> filter_signal example_filter 0 (Some ''direct'') example_heap
     = (Inl (ValueError ''Unknown method direct.''), example_heap)"
  using unknown_method_raises[of example_filter example_coefficients "\<lparr>shape = [1], entries = [1]\<rparr>"
      "''bogus''" 0 example_heap]
    unknown_method_raises[of example_filter example_coefficients "\<lparr>shape = [1], entries = [1]\<rparr>"
      "''direct''" 0 example_heap]
  by (simp add: example_filter_simps example_coefficients_def example_graph_def)

text \<open>
  C7. Constructed from a \<^verbatim>\<open>Filter\<close> object, the instance has no coefficients:
  \<^verbatim>\<open>_compute_coefficients\<close> is \<^verbatim>\<open>pass\<close>. Evaluation then raises
  \<^verbatim>\<open>AttributeError\<close>, and filtering raises \<^verbatim>\<open>ValueError('Unknown method recursive.')\<close>,
  since the \<^verbatim>\<open>AttributeError\<close> is raised inside the \<^verbatim>\<open>try\<close> block of \<^verbatim>\<open>_filter\<close>.
\<close>

theorem function_bank_has_no_coefficients:
  "coefficients function_filter = None
   \<and> evaluate function_filter \<lparr>shape = [1], entries = [1]\<rparr> None = Inl (AttributeError ''_coefficients'')
   \<and> filter_signal function_filter 0 None example_heap
       = (Inl (ValueError ''Unknown method recursive.''), example_heap)"
  by (simp add: function_filter_def init_def compute_coefficients_def evaluate_def
      no_coefficients_def filter_signal_def rescale_laplacian_def identity_def example_graph_def
      getattr_filter_def filter_recursive_def except_attribute_error_def unknown_method_def Let_def)

lemma recursive_loop_dtype_result:
  "recursive_loop_dtype cd Ld ks (x0, x1, result) = (a, b, r) \<Longrightarrow> r = result"
  by (induction ks arbitrary: x0 x1 a b) (auto simp: Let_def)

lemma filter_recursive_dtype_eq: "filter_recursive_dtype cd Ld sd K = result_type cd sd"
  by (auto simp: filter_recursive_dtype_def Let_def split: prod.splits
      dest: recursive_loop_dtype_result)

text \<open>
  C8. With coefficients and signal in single precision the result of
  \<^verbatim>\<open>_filter_recursive\<close> is in single precision, for order \<open>0\<close> and for order \<open>2\<close>,
  although the rescaled Laplacian is in double precision: the signal was not converted.
  \<^verbatim>\<open>cheby_op\<close> converts a single-precision signal to double precision.
\<close>

theorem float32_signal_not_upcast:
  "filter_recursive_dtype Float32 Float64 Float32 1 = Float32
   \<and> filter_recursive_dtype Float32 Float64 Float32 3 = Float32
   \<and> cheby_op_signal_dtype Float32 = Float64"
  by (simp add: filter_recursive_dtype_eq result_type_def cheby_op_signal_dtype_def)

text \<open>
  C10. Whatever the method, the coefficients and the shapes, and whether the call returns
  or raises: afterwards the object at the address of \<open>s\<close> (its shape and its buffer)
  and the array it denotes are what they were before the call, and so is every other object
  and buffer that existed before. Shapes are assigned only to the view and to arrays the
  call created, and only the buffer of \<^verbatim>\<open>result\<close> is written.
\<close>

theorem filter_leaves_signal_unchanged:
  assumes "live h s" and "filter_signal self s method h = (r, h')"
  shows "objs h' ! s = objs h ! s \<and> arr h' s = arr h s \<and> frame h h'"
proof -
  have "frame h h'" by (rule filter_signal_frame[OF assms(2)])
  then show ?thesis using assms(1) by (simp add: frame_def live_def arr_def)
qed

lemma example_live: "live example_heap 0"
  by (simp add: live_def example_heap_def)

lemma example_calls_return:
  "fst (filter_signal example_filter 0 (Some ''recursive'') example_heap) = Inr 2"
  "fst (filter_signal example_filter 0 (Some ''clenshaw'') example_heap) = Inr 10"
  by code_simp+

theorem filter_leaves_signal_unchanged_witness:
  "fst (filter_signal example_filter 0 (Some ''recursive'') example_heap) = Inr 2
   \<and> arr (snd (filter_signal example_filter 0 (Some ''recursive'') example_heap)) 0
       = \<lparr>shape = [1, 1, 2], entries = [1, 0]\<rparr>
   \<and> fst (filter_signal example_filter 0 (Some ''clenshaw'') example_heap) = Inr 10
   \<and> arr (snd (filter_signal example_filter 0 (Some ''clenshaw'') example_heap)) 0
       = \<lparr>shape = [1, 1, 2], entries = [1, 0]\<rparr>"
  using filter_leaves_signal_unchanged[OF example_live surjective_pairing,
      of example_filter "Some ''recursive''"]
    filter_leaves_signal_unchanged[OF example_live surjective_pairing,
      of example_filter "Some ''clenshaw''"]
  by (simp add: example_calls_return) (simp add: example_heap_def arr_def)

end
